theory Spec2Isabelle
  imports Main "HOL-Library.AList"
begin

section \<open>JavaScript values\<close>

text \<open>
  The functions of \<^verbatim>\<open>src/js/components/Data/DataForm.js\<close> work on plain JavaScript data:
  views, form values and the collection of named views. A value is \<open>undefined\<close>,
  \<open>null\<close>, a boolean, a number, a string, an array or an object; the one other value
  that the code can meet is a built-in function, a member of \<^verbatim>\<open>Object.prototype\<close> that a
  lookup inherits, given here by its name. Numbers are
  integers here (page numbers, steps, range bounds). An object is the list of its own
  enumerable properties in the order \<^verbatim>\<open>Object.keys\<close> lists them; a new key goes to the
  end of the list, an assignment to an existing key keeps its place. The keys of an object
  are distinct, so that a spread \<^verbatim>\<open>{ ...o }\<close> of an object alone is the list itself. (Keys
  that are array indices, which JavaScript lists before the others, occur only where a
  string or an array is spread.)
\<close>

datatype jv =
    JUndefined
  | JNull
  | JBool bool
  | JNum int
  | JStr string
  | JArr "jv list"
  | JObj "(string \<times> jv) list"
  | JFunction string

type_synonym obj = "(string \<times> jv) list"

text \<open>What a failing evaluation throws. \<open>Unmodelled\<close> marks an operation whose result
  depends on parts of JavaScript that the values above do not carry: the identity of an
  object under \<^verbatim>\<open>===\<close>, and the conversion of a string or an array to a number under
  \<^verbatim>\<open>x > 1\<close>.\<close>

datatype error = TypeError | SyntaxError | Unmodelled

text \<open>Truthiness, as \<^verbatim>\<open>if (x)\<close>, \<^verbatim>\<open>x && y\<close>, \<^verbatim>\<open>!x\<close> and \<^verbatim>\<open>x || y\<close> test it.\<close>

fun truthy :: "jv \<Rightarrow> bool" where
  "truthy JUndefined = False"
| "truthy JNull = False"
| "truthy (JBool b) = b"
| "truthy (JNum n) = (n \<noteq> 0)"
| "truthy (JStr s) = (s \<noteq> [])"
| "truthy (JArr xs) = True"
| "truthy (JObj m) = True"
| "truthy (JFunction f) = True"

text \<open>\<^verbatim>\<open>o[k]\<close> on an object, for a key that is one of the object's own keys or is not the
  name of a member of \<^verbatim>\<open>Object.prototype\<close> (the fixed names that the source reads, such as
  \<^verbatim>\<open>_view\<close>, \<^verbatim>\<open>properties\<close> or \<^verbatim>\<open>min\<close>, and the keys that a loop takes from \<^verbatim>\<open>Object.keys\<close> of the
  object it reads): the own property, or \<open>undefined\<close> when the key is absent.\<close>

definition get :: "obj \<Rightarrow> string \<Rightarrow> jv" where
  "get m k = (case map_of m k of None \<Rightarrow> JUndefined | Some v \<Rightarrow> v)"

text \<open>What a plain object inherits from \<^verbatim>\<open>Object.prototype\<close>: \<^verbatim>\<open>constructor\<close> is the function
  \<^verbatim>\<open>Object\<close>, \<^verbatim>\<open>__proto__\<close> reads as \<^verbatim>\<open>Object.prototype\<close> itself, an object without enumerable
  properties, and the ten other members are functions that carry the name of their key.\<close>

definition object_prototype :: "string \<Rightarrow> jv option" where
  "object_prototype k =
     (if k = ''__proto__'' then Some (JObj [])
      else if k = ''constructor'' then Some (JFunction ''Object'')
      else if k \<in> set [''hasOwnProperty'', ''isPrototypeOf'', ''propertyIsEnumerable'',
                         ''toLocaleString'', ''toString'', ''valueOf'', ''__defineGetter__'',
                         ''__defineSetter__'', ''__lookupGetter__'', ''__lookupSetter__'']
      then Some (JFunction k)
      else None)"

text \<open>\<^verbatim>\<open>o[k]\<close> on a plain object for any key: the own property, else the inherited member,
  else \<open>undefined\<close>. The form values are plain objects (object literals, spreads and what
  the form hands over).\<close>

definition get_chain :: "obj \<Rightarrow> string \<Rightarrow> jv" where
  "get_chain m k =
     (case map_of m k of
        Some v \<Rightarrow> v
      | None \<Rightarrow> (case object_prototype k of None \<Rightarrow> JUndefined | Some v \<Rightarrow> v))"

text \<open>\<^verbatim>\<open>o[k] = v\<close> for a key other than \<^verbatim>\<open>__proto__\<close> or one that the object has (and the
  definition of a property by a spread or an object literal, for any key), and
  \<^verbatim>\<open>delete o[k]\<close>.\<close>

definition set_prop :: "obj \<Rightarrow> string \<Rightarrow> jv \<Rightarrow> obj" where
  "set_prop m k v = AList.update k v m"

definition delete_prop :: "obj \<Rightarrow> string \<Rightarrow> obj" where
  "delete_prop m k = AList.delete k m"

text \<open>\<^verbatim>\<open>x?.k\<close> for the property names the source reads this way (\<open>properties\<close>, \<open>min\<close>,
  \<open>max\<close>, \<open>name\<close>, \<open>_range\<close> and the view's fields): \<open>undefined\<close> on \<open>undefined\<close> and \<open>null\<close>,
  and on a boolean, number, string or array, none of which has such a property; a function
  has its \<open>name\<close>. (Views are objects, \<open>undefined\<close> or \<open>null\<close>.)\<close>

fun get_prop :: "jv \<Rightarrow> string \<Rightarrow> jv" where
  "get_prop (JObj m) k = get m k"
| "get_prop (JFunction f) k = (if k = ''name'' then JStr f else JUndefined)"
| "get_prop x k = JUndefined"

text \<open>\<^verbatim>\<open>typeof x === 'number'\<close>.\<close>

fun is_number :: "jv \<Rightarrow> bool" where
  "is_number (JNum n) = True"
| "is_number x = False"

text \<open>\<^verbatim>\<open>Array.isArray(x) && x.length === 0\<close>.\<close>

fun is_empty_array :: "jv \<Rightarrow> bool" where
  "is_empty_array (JArr xs) = (xs = [])"
| "is_empty_array x = False"

text \<open>\<^verbatim>\<open>x[i]\<close> for an index \<open>i\<close>: an element of an array, a character of a string, the
  property named by the index of an object; \<open>undefined\<close> otherwise.\<close>

definition digit_char :: "nat \<Rightarrow> char" where
  "digit_char n = ''0123456789'' ! n"

fun show_nat :: "nat \<Rightarrow> string" where
  "show_nat n = (if n < 10 then [digit_char n] else show_nat (n div 10) @ [digit_char (n mod 10)])"

declare show_nat.simps [simp del]

fun get_index :: "jv \<Rightarrow> nat \<Rightarrow> jv" where
  "get_index (JArr xs) i = (if i < length xs then xs ! i else JUndefined)"
| "get_index (JStr s) i = (if i < length s then JStr [s ! i] else JUndefined)"
| "get_index (JObj m) i = get m (show_nat i)"
| "get_index x i = JUndefined"

text \<open>The own enumerable properties that a spread \<^verbatim>\<open>{ ...x }\<close> copies: those of an
  object, the elements of an array and the characters of a string under their indices,
  nothing for the other values.\<close>

fun own_props :: "jv \<Rightarrow> obj" where
  "own_props (JObj m) = m"
| "own_props (JArr xs) = zip (map show_nat [0..<length xs]) xs"
| "own_props (JStr s) = zip (map show_nat [0..<length s]) (map (\<lambda>c. JStr [c]) s)"
| "own_props x = []"

text \<open>\<^verbatim>\<open>{ ...a, ...b }\<close>: the properties of \<open>b\<close> assigned one by one over a copy of \<open>a\<close>.\<close>

definition spread2 :: "obj \<Rightarrow> obj \<Rightarrow> obj" where
  "spread2 a b = foldl (\<lambda>r kv. set_prop r (fst kv) (snd kv)) a b"

text \<open>\<^verbatim>\<open>a === b\<close>. Two primitive values are equal when they are the same value; a primitive
  and an object never are; two objects (arrays, functions) are equal when they are the same
  object, which the values do not tell.\<close>

fun is_primitive :: "jv \<Rightarrow> bool" where
  "is_primitive (JArr xs) = False"
| "is_primitive (JObj m) = False"
| "is_primitive (JFunction f) = False"
| "is_primitive x = True"

definition strict_eq :: "jv \<Rightarrow> jv \<Rightarrow> error + bool" where
  "strict_eq a b = (if is_primitive a \<or> is_primitive b then Inr (a = b) else Inl Unmodelled)"

text \<open>\<^verbatim>\<open>x > 1\<close>: \<open>undefined\<close> converts to NaN, \<open>null\<close> to 0, a boolean to 0 or 1, a plain
  object and a function to NaN; a string or an array converts through its text.\<close>

fun gt_one :: "jv \<Rightarrow> error + bool" where
  "gt_one (JNum n) = Inr (1 < n)"
| "gt_one JUndefined = Inr False"
| "gt_one JNull = Inr False"
| "gt_one (JBool b) = Inr False"
| "gt_one (JObj m) = Inr False"
| "gt_one (JFunction f) = Inr False"
| "gt_one (JStr s) = Inl Unmodelled"
| "gt_one (JArr xs) = Inl Unmodelled"

subsection \<open>JSON\<close>

text \<open>
  \<^verbatim>\<open>JSON.stringify(x)\<close> is \<open>undefined\<close> for \<open>undefined\<close> and for a function, and otherwise
  a text that leaves out the properties whose value is one of these and writes \<open>null\<close> for
  such an array element. Two texts are the same exactly when they denote the same value (keys
  in the same order), and \<^verbatim>\<open>JSON.parse\<close> gives that value back, so the text is
  represented by the value it denotes.
\<close>

fun stringify :: "jv \<Rightarrow> jv option"
  and stringify_elems :: "jv list \<Rightarrow> jv list"
  and stringify_props :: "obj \<Rightarrow> obj" where
  "stringify JUndefined = None"
| "stringify (JFunction f) = None"
| "stringify JNull = Some JNull"
| "stringify (JBool b) = Some (JBool b)"
| "stringify (JNum n) = Some (JNum n)"
| "stringify (JStr s) = Some (JStr s)"
| "stringify (JArr xs) = Some (JArr (stringify_elems xs))"
| "stringify (JObj m) = Some (JObj (stringify_props m))"
| "stringify_elems [] = []"
| "stringify_elems (x # xs) =
     (case stringify x of None \<Rightarrow> JNull | Some y \<Rightarrow> y) # stringify_elems xs"
| "stringify_props [] = []"
| "stringify_props (kv # m) =
     (case stringify (snd kv) of None \<Rightarrow> stringify_props m
      | Some y \<Rightarrow> (fst kv, y) # stringify_props m)"

text \<open>\<^verbatim>\<open>JSON.parse(JSON.stringify(x))\<close>: \<^verbatim>\<open>JSON.parse(undefined)\<close> throws a SyntaxError.\<close>

definition json_copy :: "jv \<Rightarrow> error + jv" where
  "json_copy x = (case stringify x of None \<Rightarrow> Inl SyntaxError | Some y \<Rightarrow> Inr y)"

section \<open>The form keys\<close>

abbreviation formSearchKey :: string where "formSearchKey \<equiv> ''_search''"
abbreviation formSortKey :: string where "formSortKey \<equiv> ''_sort''"
abbreviation formRangeKey :: string where "formRangeKey \<equiv> ''_range''"
abbreviation formStepKey :: string where "formStepKey \<equiv> ''_step''"
abbreviation formPageKey :: string where "formPageKey \<equiv> ''_page''"
abbreviation formColumnsKey :: string where "formColumnsKey \<equiv> ''_columns''"
abbreviation formViewNameKey :: string where "formViewNameKey \<equiv> ''_view''"

definition viewFormKeyMap :: "(string \<times> string) list" where
  "viewFormKeyMap =
     [(''search'', formSearchKey), (''sort'', formSortKey), (''step'', formStepKey),
      (''page'', formPageKey), (''columns'', formColumnsKey), (''view'', formViewNameKey)]"

section \<open>viewToFormValue\<close>

text \<open>The first loop: a property with a numeric \<open>min\<close> or \<open>max\<close> becomes
  \<^verbatim>\<open>{ _range: [min, max] }\<close>.\<close>

definition to_range :: "obj \<Rightarrow> string \<Rightarrow> obj" where
  "to_range result key =
     (if is_number (get_prop (get result key) ''min'') \<or> is_number (get_prop (get result key) ''max'')
      then set_prop result key
             (JObj [(formRangeKey,
                     JArr [get_prop (get result key) ''min'', get_prop (get result key) ''max''])])
      else result)"

text \<open>The second loop: a truthy field of the view goes under its form key.\<close>

definition copy_field :: "jv \<Rightarrow> obj \<Rightarrow> string \<times> string \<Rightarrow> obj" where
  "copy_field view result km =
     (if truthy (get_prop view (fst km)) then set_prop result (snd km) (get_prop view (fst km))
      else result)"

definition viewToFormValue :: "jv \<Rightarrow> obj" where
  "viewToFormValue view =
     (let p = get_prop view ''properties'';
          result = own_props (if truthy p then p else JObj []);
          result = foldl to_range result (map fst result);
          result = foldl (copy_field view) result viewFormKeyMap;
          result = (if \<not> truthy (get result formSearchKey)
                    then set_prop result formSearchKey (JStr []) else result);
          result = copy_field view result (''sort'', formSortKey);
          result = copy_field view result (''name'', formViewNameKey);
          result = copy_field view result (''columns'', formColumnsKey)
      in result)"

section \<open>formValueToView\<close>

text \<open>\<^verbatim>\<open>views.find((v) => v.name === name)\<close>: a TypeError when \<open>views\<close> is not an array
  (it has no \<open>find\<close>) and when an element visited is \<open>undefined\<close> or \<open>null\<close>; \<open>undefined\<close>
  when no element matches.\<close>

fun find_in :: "jv list \<Rightarrow> jv \<Rightarrow> error + jv" where
  "find_in [] name = Inr JUndefined"
| "find_in (v # vs) name =
     (if v = JUndefined \<or> v = JNull then Inl TypeError
      else case strict_eq (get_prop v ''name'') name of
             Inl e \<Rightarrow> Inl e
           | Inr True \<Rightarrow> Inr v
           | Inr False \<Rightarrow> find_in vs name)"

fun find_view :: "jv \<Rightarrow> jv \<Rightarrow> error + jv" where
  "find_view (JArr vs) name = find_in vs name"
| "find_view x name = Inl TypeError"

text \<open>The loop over \<open>viewFormKeyMap\<close>: the pair is the result and the working copy of the
  form value.\<close>

definition take_field :: "obj \<times> obj \<Rightarrow> string \<times> string \<Rightarrow> obj \<times> obj" where
  "take_field rc km =
     ((if truthy (get (snd rc) (snd km)) then set_prop (fst rc) (fst km) (get (snd rc) (snd km))
       else fst rc),
      delete_prop (snd rc) (snd km))"

text \<open>The last loop: \<^verbatim>\<open>{ _range: [min, max] }\<close> becomes \<^verbatim>\<open>{ min, max }\<close>; reading
  \<^verbatim>\<open>_range\<close> from \<open>undefined\<close> or \<open>null\<close> throws.\<close>

definition from_range :: "error + obj \<Rightarrow> string \<Rightarrow> error + obj" where
  "from_range r key =
     (case r of
        Inl e \<Rightarrow> Inl e
      | Inr props \<Rightarrow>
          (if get props key = JUndefined \<or> get props key = JNull then Inl TypeError
           else if truthy (get_prop (get props key) formRangeKey)
           then Inr (set_prop props key
                  (JObj [(''min'', get_index (get_prop (get props key) formRangeKey) 0),
                         (''max'', get_index (get_prop (get props key) formRangeKey) 1)]))
           else Inr props))"

definition decode_from :: "obj \<Rightarrow> obj \<Rightarrow> error + obj" where
  "decode_from seed v =
     (let rc = foldl take_field (seed, v) viewFormKeyMap;
          p = get (fst rc) ''properties'';
          props = spread2 (own_props (if truthy p then p else JObj [])) (snd rc)
      in case foldl from_range (Inr props) (map fst props) of
           Inl e \<Rightarrow> Inl e
         | Inr props' \<Rightarrow> Inr (set_prop (fst rc) ''properties'' (JObj props')))"

definition formValueToView :: "obj \<Rightarrow> jv \<Rightarrow> error + obj" where
  "formValueToView v views =
     (if truthy (get v formViewNameKey)
      then (case find_view views (get v formViewNameKey) of
              Inl e \<Rightarrow> Inl e
            | Inr found \<Rightarrow>
               (case json_copy found of
                  Inl e \<Rightarrow> Inl e
                | Inr c \<Rightarrow> decode_from (own_props c) v))
      else decode_from [] v)"

section \<open>clearEmpty, resetPage, transformTouched\<close>

text \<open>The functions below change their argument in place and the caller goes on with the
  changed object; here they return it.\<close>

definition clearEmpty :: "obj \<Rightarrow> obj" where
  "clearEmpty formValue =
     foldl (\<lambda>value k. if is_empty_array (get value k) then delete_prop value k else value)
       formValue (map fst formValue)"

definition resetPage :: "obj \<Rightarrow> obj \<Rightarrow> error + obj" where
  "resetPage nextFormValue prevFormValue =
     (if truthy (get prevFormValue formPageKey)
      then (case gt_one (get prevFormValue formPageKey) of
              Inl e \<Rightarrow> Inl e
            | Inr True \<Rightarrow> Inr (set_prop nextFormValue formPageKey (JNum 1))
            | Inr False \<Rightarrow> Inr nextFormValue)
      else Inr nextFormValue)"

text \<open>\<^verbatim>\<open>key.split('.')\<close>: the segments between the dots, one segment (the empty one) for
  the empty string.\<close>

fun split_dot :: "string \<Rightarrow> string list" where
  "split_dot [] = [] # []"
| "split_dot (c # cs) =
     (if c = CHR ''.'' then [] # split_dot cs
      else (case split_dot cs of [] \<Rightarrow> [c] # [] | p # ps \<Rightarrow> (c # p) # ps))"

text \<open>The value that \<open>transformTouched\<close> reports for a path: the path is any string, so
  the two reads go through the prototype chain.\<close>

definition touched_value :: "obj \<Rightarrow> string \<Rightarrow> jv" where
  "touched_value v key =
     (let parts = split_dot key
      in if 1 < length parts \<and> parts ! 1 = formRangeKey then get_chain v (parts ! 0)
         else get_chain v key)"

text \<open>\<^verbatim>\<open>result[key] = ...\<close> on the fresh \<open>result\<close>: for the key \<^verbatim>\<open>__proto__\<close>, which \<open>result\<close>
  never has as its own, the assignment goes to the setter of \<^verbatim>\<open>Object.prototype\<close> and adds
  no entry (it replaces the prototype of \<open>result\<close> when the value is an object or \<open>null\<close>;
  the list of entries does not show the prototype).\<close>

definition transformTouched :: "obj \<Rightarrow> obj \<Rightarrow> obj" where
  "transformTouched touched v =
     foldl (\<lambda>result key. if key = ''__proto__'' then result
                          else set_prop result key (touched_value v key))
       [] (map fst touched)"

section \<open>normalizeValue\<close>

text \<open>\<^verbatim>\<open>Object.keys(viewValue).some(...)\<close> of the edit branch. The keys are those of
  \<open>viewValue\<close>; \<open>result\<close> may lack them, so \<^verbatim>\<open>result[k]\<close> goes through the prototype chain.\<close>

definition diverged :: "obj \<Rightarrow> obj \<Rightarrow> bool" where
  "diverged viewValue result =
     list_ex (\<lambda>k. truthy (get viewValue k) \<and> truthy (get_chain result k) \<and>
                   stringify (get_chain result k) \<noteq> stringify (get viewValue k))
       (map fst viewValue)"

definition edit_branch :: "obj \<Rightarrow> jv \<Rightarrow> error + obj" where
  "edit_branch nextValue views =
     (let result = clearEmpty nextValue
      in if truthy (get result formViewNameKey)
         then (case find_view views (get result formViewNameKey) of
                 Inl e \<Rightarrow> Inl e
               | Inr view \<Rightarrow>
                   (let viewValue = clearEmpty (viewToFormValue view)
                    in if diverged viewValue result
                       then Inr (delete_prop result formViewNameKey)
                       else Inr result))
         else Inr result)"

definition normalizeValue :: "obj \<Rightarrow> obj \<Rightarrow> jv \<Rightarrow> error + obj" where
  "normalizeValue nextValue prevValue views =
     (if truthy (get nextValue formViewNameKey)
      then (case strict_eq (get nextValue formViewNameKey) (get prevValue formViewNameKey) of
              Inl e \<Rightarrow> Inl e
            | Inr False \<Rightarrow>
                (case find_view views (get nextValue formViewNameKey) of
                   Inl e \<Rightarrow> Inl e
                 | Inr view \<Rightarrow> Inr (viewToFormValue view))
            | Inr True \<Rightarrow> edit_branch nextValue views)
      else edit_branch nextValue views)"

section \<open>The DataForm component\<close>

text \<open>
  The component keeps two pieces of state, \<^verbatim>\<open>formValue\<close> and \<^verbatim>\<open>changed\<close>
  (\<^verbatim>\<open>useState()\<close>: \<open>undefined\<close> until it is first set, here \<open>None\<close>), and reads the view,
  the views and \<^verbatim>\<open>updateOn\<close> from its context and properties. A handler returns the new
  state, what it passed to \<^verbatim>\<open>onTouched\<close>, \<^verbatim>\<open>onView\<close> and \<^verbatim>\<open>onDone\<close>, in that order, and what
  it threw, if it did; the state set before a throw stays set.
\<close>

record controller =
  formValue :: obj
  changed :: "bool option"

record data_context =
  ctx_view :: jv
  ctx_views :: jv
  ctx_updateOn :: jv
  ctx_onTouched :: bool
  ctx_onDone :: bool

datatype emission = Touched obj | View obj | Done

type_synonym outcome = "controller \<times> emission list \<times> error option"

definition mount :: "data_context \<Rightarrow> controller" where
  "mount ctx = \<lparr>formValue = viewToFormValue (ctx_view ctx), changed = None\<rparr>"

definition onSubmit :: "data_context \<Rightarrow> controller \<Rightarrow> obj \<Rightarrow> obj \<Rightarrow> outcome" where
  "onSubmit ctx s v touched =
     (case normalizeValue v (formValue s) (ctx_views ctx) of
        Inl e \<Rightarrow> (s, [], Some e)
      | Inr n \<Rightarrow>
         (case resetPage n (formValue s) of
            Inl e \<Rightarrow> (s, [], Some e)
          | Inr nextValue \<Rightarrow>
             (let s' = s\<lparr>formValue := nextValue, changed := Some False\<rparr>;
                  t = (if ctx_onTouched ctx then [Touched (transformTouched touched nextValue)] else [])
              in case formValueToView nextValue (ctx_views ctx) of
                   Inl e \<Rightarrow> (s', t, Some e)
                 | Inr w \<Rightarrow> (s', t @ [View w] @ (if ctx_onDone ctx then [Done] else []), None))))"

definition onChange :: "data_context \<Rightarrow> controller \<Rightarrow> obj \<Rightarrow> obj \<Rightarrow> outcome" where
  "onChange ctx s v touched =
     (case normalizeValue v (formValue s) (ctx_views ctx) of
        Inl e \<Rightarrow> (s, [], Some e)
      | Inr n \<Rightarrow>
         (case resetPage n (formValue s) of
            Inl e \<Rightarrow> (s, [], Some e)
          | Inr nextValue \<Rightarrow>
             (let s' = s\<lparr>formValue := nextValue, changed := Some True\<rparr>
              in if ctx_updateOn ctx = JStr ''change''
                 then (let t = (if ctx_onTouched ctx
                                then [Touched (transformTouched touched nextValue)] else [])
                       in case formValueToView nextValue (ctx_views ctx) of
                            Inl e \<Rightarrow> (s', t, Some e)
                          | Inr w \<Rightarrow> (s', t @ [View w], None))
                 else (s', [], None))))"

definition onReset :: "data_context \<Rightarrow> controller \<Rightarrow> outcome" where
  "onReset ctx s = (s\<lparr>formValue := viewToFormValue (ctx_view ctx), changed := Some False\<rparr>, [], None)"

text \<open>\<^verbatim>\<open>useEffect(() => setFormValue(viewToFormValue(view)), [view])\<close>: runs after the first
  render and whenever the context supplies another view.\<close>

definition view_effect :: "data_context \<Rightarrow> controller \<Rightarrow> outcome" where
  "view_effect ctx s = (s\<lparr>formValue := viewToFormValue (ctx_view ctx)\<rparr>, [], None)"

text \<open>The reset button is hidden while \<^verbatim>\<open>!changed\<close> holds: the form counts as edited
  when \<^verbatim>\<open>changed\<close> is \<open>true\<close>.\<close>

definition dirty :: "controller \<Rightarrow> bool" where
  "dirty s = (changed s = Some True)"

section \<open>Notions used by the statements\<close>

text \<open>A value in which neither \<open>undefined\<close> nor a function occurs: what a JSON text
  can denote.\<close>

fun json_value :: "jv \<Rightarrow> bool"
  and json_values :: "jv list \<Rightarrow> bool"
  and json_props :: "obj \<Rightarrow> bool" where
  "json_value JUndefined = False"
| "json_value (JFunction f) = False"
| "json_value JNull = True"
| "json_value (JBool b) = True"
| "json_value (JNum n) = True"
| "json_value (JStr s) = True"
| "json_value (JArr xs) = json_values xs"
| "json_value (JObj m) = json_props m"
| "json_values [] = True"
| "json_values (x # xs) = (json_value x \<and> json_values xs)"
| "json_props [] = True"
| "json_props (kv # m) = (json_value (snd kv) \<and> json_props m)"

text \<open>A context for the examples: an unnamed view without filters, no named views,
  \<^verbatim>\<open>updateOn\<close> set to \<^verbatim>\<open>submit\<close>; and the same context after the owner has replaced the view.\<close>

definition ctx0 :: data_context where
  "ctx0 = \<lparr>ctx_view = JObj [(''properties'', JObj [])], ctx_views = JArr [],
           ctx_updateOn = JStr ''submit'', ctx_onTouched = False, ctx_onDone = False\<rparr>"

definition ctx1 :: data_context where
  "ctx1 = ctx0\<lparr>ctx_view := JObj [(''properties'', JObj []), (''search'', JStr ''y'')]\<rparr>"

text \<open>Structural equality of two values: the same primitive value; arrays with equal
  elements in the same order; objects with the same keys, in any order, and equal values
  under each key.\<close>

function (sequential) struct_eq :: "jv \<Rightarrow> jv \<Rightarrow> bool" where
  "struct_eq (JObj a) (JObj b) =
     (fst ` set a = fst ` set b \<and> (\<forall>k \<in> fst ` set a. struct_eq (get a k) (get b k)))"
| "struct_eq (JArr xs) (JArr ys) = list_all2 struct_eq xs ys"
| "struct_eq x y = (x = y)"
  by pat_completeness auto
termination
proof (relation "measure (\<lambda>p. size (fst p))")
  show "wf (measure (\<lambda>p. size (fst p)))" by simp
next
  fix a b :: obj and k
  assume k: "k \<in> fst ` set a"
  have le: "map_of m k = Some v \<Longrightarrow> size v \<le> size_list (size_prod (\<lambda>x. 0) size) m" for m :: obj and v
    by (induction m) (auto split: if_splits)
  from k obtain v where "map_of a k = Some v"
    by (metis domD dom_map_of_conv_image_fst)
  with le [of a v] show "((get a k, get b k), JObj a, JObj b) \<in> measure (\<lambda>p. size (fst p))"
    by (simp add: get_def)
next
  fix xs ys :: "jv list" and z yb
  assume "z \<in> set xs"
  then show "((z, yb), JArr xs, JArr ys) \<in> measure (\<lambda>p. size (fst p))"
    by (simp add: size_list_estimation' less_Suc_eq_le)
qed

declare struct_eq.simps [simp del]

text \<open>The property filters of the data model: a scalar, a sequence of scalars, or a
  range, an object of the two numbers \<open>min\<close> and \<open>max\<close>.\<close>

fun is_scalar :: "jv \<Rightarrow> bool" where
  "is_scalar (JBool b) = True"
| "is_scalar (JNum n) = True"
| "is_scalar (JStr s) = True"
| "is_scalar x = False"

fun wf_filter :: "jv \<Rightarrow> bool" where
  "wf_filter (JArr xs) = list_all is_scalar xs"
| "wf_filter (JObj m) =
     ((map fst m = [''min'', ''max''] \<or> map fst m = [''max'', ''min'']) \<and> list_all (\<lambda>kv. is_number (snd kv)) m)"
| "wf_filter x = is_scalar x"

text \<open>The \<open>properties\<close> of a view: an object whose keys are none of the form keys and
  whose values are property filters.\<close>

definition wf_properties :: "jv \<Rightarrow> bool" where
  "wf_properties p =
     (case p of
        JObj ps \<Rightarrow> distinct (map fst ps) \<and>
                   list_all (\<lambda>kv. fst kv \<notin> set (map snd viewFormKeyMap) \<and> wf_filter (snd kv)) ps
      | _ \<Rightarrow> False)"

text \<open>A view without a name: an object with \<open>properties\<close> and, possibly, the fields
  \<open>search\<close>, \<open>sort\<close>, \<open>step\<close>, \<open>page\<close> and \<open>columns\<close>, each with a truthy value (a search
  text that is not empty, a page that is not 0).\<close>

definition wf_unnamed_view :: "obj \<Rightarrow> bool" where
  "wf_unnamed_view v =
     (distinct (map fst v) \<and> ''properties'' \<in> set (map fst v) \<and> wf_properties (get v ''properties'') \<and>
      list_all (\<lambda>kv. fst kv = ''properties'' \<or>
                      fst kv \<in> set [''search'', ''sort'', ''step'', ''page'', ''columns''] \<and> truthy (snd kv)) v)"

text \<open>A view with a name: an object of JSON data with \<open>properties\<close> and a name that is a
  string and not empty; its other fields are not restricted.\<close>

definition wf_named_view :: "obj \<Rightarrow> bool" where
  "wf_named_view v =
     (distinct (map fst v) \<and> ''properties'' \<in> set (map fst v) \<and> wf_properties (get v ''properties'') \<and>
      json_props v \<and> (case get v ''name'' of JStr n \<Rightarrow> n \<noteq> [] | _ \<Rightarrow> False))"

text \<open>What the first loop of \<open>viewToFormValue\<close> and the last loop of \<open>formValueToView\<close> do
  to the value of one property.\<close>

definition encode_value :: "jv \<Rightarrow> jv" where
  "encode_value x =
     (if is_number (get_prop x ''min'') \<or> is_number (get_prop x ''max'')
      then JObj [(formRangeKey, JArr [get_prop x ''min'', get_prop x ''max''])] else x)"

definition decode_value :: "jv \<Rightarrow> jv" where
  "decode_value x =
     (if truthy (get_prop x formRangeKey)
      then JObj [(''min'', get_index (get_prop x formRangeKey) 0),
                 (''max'', get_index (get_prop x formRangeKey) 1)]
      else x)"

text \<open>The entries of a form value under one of the form keys of \<open>viewFormKeyMap\<close>.\<close>

definition form_key :: "string \<times> jv \<Rightarrow> bool" where
  "form_key kv = (fst kv \<in> set (map snd viewFormKeyMap))"

section \<open>Objects\<close>


lemma get_set_prop: "get (set_prop m k v) k' = (if k' = k then v else get m k')"
  by (simp add: get_def set_prop_def update_conv')

lemma get_delete_prop: "get (delete_prop m k) k' = (if k' = k then JUndefined else get m k')"
  by (simp add: get_def delete_prop_def delete_conv')

lemma map_of_set_prop: "map_of (set_prop m k v) = (map_of m)(k \<mapsto> v)"
  by (simp add: set_prop_def update_conv')

lemma map_of_delete_prop: "map_of (delete_prop m k) = (map_of m)(k := None)"
  by (simp add: delete_prop_def delete_conv')

lemma get_Nil: "get [] k = JUndefined"
  by (simp add: get_def)

lemma get_Cons: "get ((a, b) # m) k = (if k = a then b else get m k)"
  by (simp add: get_def)

lemma set_prop_Nil: "set_prop [] k v = [(k, v)]"
  by (simp add: set_prop_def)

lemma set_prop_Cons: "set_prop ((a, b) # m) k v = (if a = k then (k, v) # m else (a, b) # set_prop m k v)"
  by (simp add: set_prop_def)

lemma delete_prop_Nil: "delete_prop [] k = []"
  by (simp add: delete_prop_def)

lemma delete_prop_Cons: "delete_prop ((a, b) # m) k = (if a = k then delete_prop m k else (a, b) # delete_prop m k)"
  by (simp add: delete_prop_def)

lemmas obj_eval = get_Nil get_Cons set_prop_Nil set_prop_Cons delete_prop_Nil delete_prop_Cons

lemma show_nat_0: "show_nat 0 = ''0''"
  by (simp add: show_nat.simps digit_char_def)

lemma show_nat_1: "show_nat 1 = ''1''"
  by (simp add: show_nat.simps digit_char_def)

lemma get_in_keys: "get m k \<noteq> JUndefined \<Longrightarrow> k \<in> fst ` set m"
  by (force simp: get_def split: option.splits dest!: map_of_SomeD)

subsection \<open>clearEmpty\<close>

lemma is_empty_array_iff: "is_empty_array x \<longleftrightarrow> x = JArr []"
  by (cases x) auto

lemma map_of_prune_fold:
  "map_of (foldl (\<lambda>value k. if is_empty_array (get value k) then delete_prop value k else value) v ks) k =
     (if k \<in> set ks \<and> is_empty_array (get v k) then None else map_of v k)"
proof (induction ks arbitrary: v)
  case Nil
  then show ?case by simp
next
  case (Cons a ks)
  show ?case
    by (simp add: Cons.IH get_delete_prop map_of_delete_prop) (auto simp: get_def is_empty_array_iff)
qed

lemma map_of_clearEmpty:
  "map_of (clearEmpty m) k = (if map_of m k = Some (JArr []) then None else map_of m k)"
proof -
  have "map_of m k = Some (JArr []) \<Longrightarrow> k \<in> fst ` set m"
    by (metis map_of_eq_None_iff option.distinct(1))
  then show ?thesis
    unfolding clearEmpty_def map_of_prune_fold
    by (auto simp: get_def is_empty_array_iff split: option.splits)
qed

lemma get_clearEmpty: "get (clearEmpty m) k = (if get m k = JArr [] then JUndefined else get m k)"
  by (simp add: get_def map_of_clearEmpty split: option.splits)

lemma delete_prop_filter: "delete_prop m k = filter (\<lambda>kv. fst kv \<noteq> k) m"
  by (induction m) (auto simp: delete_prop_def)

lemma prune_fold_filter:
  "distinct (map fst v) \<Longrightarrow>
   foldl (\<lambda>value k. if is_empty_array (get value k) then delete_prop value k else value) v ks =
     filter (\<lambda>kv. \<not> (fst kv \<in> set ks \<and> snd kv = JArr [])) v"
proof (induction ks arbitrary: v)
  case Nil
  then show ?case by simp
next
  case (Cons a ks)
  let ?v' = "if is_empty_array (get v a) then delete_prop v a else v"
  have step: "?v' = filter (\<lambda>kv. \<not> (fst kv = a \<and> snd kv = JArr [])) v"
  proof (cases "is_empty_array (get v a)")
    case True
    then have "map_of v a = Some (JArr [])"
      by (auto simp: get_def is_empty_array_iff split: option.splits)
    with Cons.prems have "\<And>kv. kv \<in> set v \<Longrightarrow> fst kv = a \<Longrightarrow> snd kv = JArr []"
      by (metis map_of_is_SomeI option.inject prod.collapse)
    then have "filter (\<lambda>kv. fst kv \<noteq> a) v = filter (\<lambda>kv. \<not> (fst kv = a \<and> snd kv = JArr [])) v"
      by (intro filter_cong) auto
    with True show ?thesis by (simp add: delete_prop_filter)
  next
    case False
    then have "\<And>kv. kv \<in> set v \<Longrightarrow> fst kv = a \<Longrightarrow> snd kv \<noteq> JArr []"
      using Cons.prems
      by (metis get_def is_empty_array.simps(1) map_of_is_SomeI option.simps(5) prod.collapse)
    then have "filter (\<lambda>kv. \<not> (fst kv = a \<and> snd kv = JArr [])) v = v"
      by (intro filter_True) auto
    with False show ?thesis by simp
  qed
  have d: "distinct (map fst ?v')"
    unfolding step using Cons.prems by (simp add: distinct_map_filter)
  have "foldl (\<lambda>value k. if is_empty_array (get value k) then delete_prop value k else value) v (a # ks)
      = foldl (\<lambda>value k. if is_empty_array (get value k) then delete_prop value k else value) ?v' ks"
    by simp
  also have "\<dots> = filter (\<lambda>kv. \<not> (fst kv \<in> set ks \<and> snd kv = JArr [])) ?v'"
    by (rule Cons.IH [OF d])
  also have "\<dots> = filter (\<lambda>kv. \<not> (fst kv \<in> set (a # ks) \<and> snd kv = JArr [])) v"
    unfolding step by (auto intro: filter_cong)
  finally show ?case .
qed

lemma clearEmpty_filter:
  "distinct (map fst m) \<Longrightarrow> clearEmpty m = filter (\<lambda>kv. snd kv \<noteq> JArr []) m"
  unfolding clearEmpty_def by (simp add: prune_fold_filter) (auto intro: filter_cong)

text \<open>
  Claim C9. \<open>clearEmpty\<close> (the specification's \<open>pruneEmpty\<close>) deletes exactly the keys
  whose value is an array with no element: looking a key up afterwards gives nothing when
  its value was the empty array and the old value otherwise; on an object (distinct keys)
  the result is the list of the remaining properties, in their order; and
  \<^verbatim>\<open>{color: [], size: "M"}\<close> becomes \<^verbatim>\<open>{size: "M"}\<close>.
\<close>

theorem clearEmpty_deletes_empty_arrays:
  "(\<forall>k. map_of (clearEmpty m) k = (if map_of m k = Some (JArr []) then None else map_of m k)) \<and>
   (distinct (map fst m) \<longrightarrow> clearEmpty m = filter (\<lambda>kv. snd kv \<noteq> JArr []) m) \<and>
   clearEmpty [(''color'', JArr []), (''size'', JStr ''M'')] = [(''size'', JStr ''M'')]"
  by (simp add: map_of_clearEmpty clearEmpty_filter)

theorem clearEmpty_deletes_empty_arrays_witness:
  "distinct (map fst [(''color'', JArr []), (''size'', JStr ''M''), (''tags'', JArr [JStr ''a''])]) \<and>
   clearEmpty [(''color'', JArr []), (''size'', JStr ''M''), (''tags'', JArr [JStr ''a''])] =
     [(''size'', JStr ''M''), (''tags'', JArr [JStr ''a''])]"
  using clearEmpty_deletes_empty_arrays
     [of "[(''color'', JArr []), (''size'', JStr ''M''), (''tags'', JArr [JStr ''a''])]"]
  by simp

subsection \<open>The codec on concrete values\<close>

lemmas codec_defs = viewToFormValue_def formValueToView_def decode_from_def to_range_def
  copy_field_def viewFormKeyMap_def take_field_def from_range_def spread2_def json_copy_def

text \<open>
  Claim C2. The claim is that \<open>formValueToView\<close> does not throw when \<^verbatim>\<open>_view\<close> names a view
  that the collection does not hold. The code does throw: for the form value
  \<^verbatim>\<open>{_view: "A"}\<close> and the empty collection \<^verbatim>\<open>find\<close> gives \<open>undefined\<close>, whose JSON copy is a
  SyntaxError; with no collection at all the call of \<^verbatim>\<open>find\<close> is a TypeError; and a
  collection that holds other views only gives the SyntaxError again. With no collection
  \<open>normalizeValue\<close> throws the TypeError too, in the view-switch branch and in the edit
  branch.
\<close>

theorem formValueToView_missing_view_throws:
  "formValueToView [(formViewNameKey, JStr ''A'')] (JArr []) = Inl SyntaxError \<and>
   formValueToView [(formViewNameKey, JStr ''A'')] JUndefined = Inl TypeError \<and>
   formValueToView [(formViewNameKey, JStr ''A'')]
      (JArr [JObj [(''name'', JStr ''B''), (''properties'', JObj [])]]) = Inl SyntaxError \<and>
   normalizeValue [(formViewNameKey, JStr ''A'')] [] JUndefined = Inl TypeError \<and>
   normalizeValue [(formViewNameKey, JStr ''A'')] [(formViewNameKey, JStr ''A'')] JUndefined
     = Inl TypeError"
  by (simp add: codec_defs obj_eval strict_eq_def normalizeValue_def edit_branch_def clearEmpty_def)

text \<open>
  Claim C7. The property \<^verbatim>\<open>{min: 1, max: 5}\<close> is encoded as \<^verbatim>\<open>{_range: [1, 5]}\<close> and decoded
  back to \<^verbatim>\<open>{min: 1, max: 5}\<close>, whatever the collection of views is; the same holds for
  any two bounds.
\<close>

theorem range_round_trip:
  "viewToFormValue (JObj [(''properties'', JObj [(''age'', JObj [(''min'', JNum 1), (''max'', JNum 5)])])])
     = [(''age'', JObj [(formRangeKey, JArr [JNum 1, JNum 5])]), (formSearchKey, JStr [])] \<and>
   formValueToView [(''age'', JObj [(formRangeKey, JArr [JNum 1, JNum 5])]), (formSearchKey, JStr [])] views
     = Inr [(''properties'', JObj [(''age'', JObj [(''min'', JNum 1), (''max'', JNum 5)])])] \<and>
   formValueToView
     (viewToFormValue (JObj [(''properties'', JObj [(''age'', JObj [(''min'', JNum lo), (''max'', JNum hi)])])]))
     views
     = Inr [(''properties'', JObj [(''age'', JObj [(''min'', JNum lo), (''max'', JNum hi)])])]"
  by (simp add: codec_defs obj_eval)

subsection \<open>resetPage\<close>

text \<open>
  Claim C6. When the previous form value has a page greater than 1, \<open>resetPage\<close> sets the
  page of the next form value to 1, whatever the next form value is (so whichever field
  changed); and whenever \<open>resetPage\<close> returns, every key other than \<^verbatim>\<open>_page\<close> has the value
  it had.
\<close>

theorem resetPage_forces_first_page:
  "(get prev formPageKey = JNum n \<and> 1 < n \<longrightarrow>
      resetPage nxt prev = Inr (set_prop nxt formPageKey (JNum 1)) \<and>
      get (set_prop nxt formPageKey (JNum 1)) formPageKey = JNum 1) \<and>
   (\<forall>r. resetPage nxt prev = Inr r \<longrightarrow> (\<forall>k. k \<noteq> formPageKey \<longrightarrow> map_of r k = map_of nxt k))"
  by (auto simp: resetPage_def get_set_prop map_of_set_prop split: sum.splits bool.splits if_splits)

theorem resetPage_forces_first_page_witness:
  "get [(formPageKey, JNum 3), (''q'', JStr ''a'')] formPageKey = JNum 3 \<and> (1::int) < 3 \<and>
   resetPage [(formPageKey, JNum 3), (''q'', JStr ''b'')] [(formPageKey, JNum 3), (''q'', JStr ''a'')]
     = Inr [(formPageKey, JNum 1), (''q'', JStr ''b'')] \<and>
   map_of [(formPageKey, JNum 1), (''q'', JStr ''b'')] ''q'' = Some (JStr ''b'')"
  using resetPage_forces_first_page
     [of "[(formPageKey, JNum 3), (''q'', JStr ''a'')]" 3 "[(formPageKey, JNum 3), (''q'', JStr ''b'')]"]
  by (simp add: obj_eval)


subsection \<open>A name that is not in the views, and the view switch\<close>

text \<open>
  Claim C10. \<open>viewToFormValue\<close> of a missing view (\<open>undefined\<close> or \<open>null\<close>) is
  \<^verbatim>\<open>{_search: ""}\<close>; hence the view-switch branch of \<open>normalizeValue\<close> returns
  \<^verbatim>\<open>{_search: ""}\<close> when the new name is not in the collection; \<open>formValueToView\<close>, which
  has no such guard, throws on the same name.
\<close>

theorem viewToFormValue_missing_view:
  "viewToFormValue JUndefined = [(formSearchKey, JStr [])] \<and>
   viewToFormValue JNull = [(formSearchKey, JStr [])] \<and>
   (truthy (get nxt formViewNameKey) \<and>
    strict_eq (get nxt formViewNameKey) (get prev formViewNameKey) = Inr False \<and>
    find_view views (get nxt formViewNameKey) = Inr JUndefined \<longrightarrow>
      normalizeValue nxt prev views = Inr [(formSearchKey, JStr [])]) \<and>
   (truthy (get nxt formViewNameKey) \<and> find_view views (get nxt formViewNameKey) = Inr JUndefined \<longrightarrow>
      formValueToView nxt views = Inl SyntaxError)"
  by (simp add: codec_defs obj_eval normalizeValue_def)

theorem viewToFormValue_missing_view_witness:
  "truthy (get [(formViewNameKey, JStr ''B'')] formViewNameKey) \<and>
   strict_eq (get [(formViewNameKey, JStr ''B'')] formViewNameKey)
     (get [(formViewNameKey, JStr ''A'')] formViewNameKey) = Inr False \<and>
   find_view (JArr [JObj [(''name'', JStr ''A''), (''properties'', JObj [])]])
     (get [(formViewNameKey, JStr ''B'')] formViewNameKey) = Inr JUndefined \<and>
   normalizeValue [(formViewNameKey, JStr ''B'')] [(formViewNameKey, JStr ''A'')]
     (JArr [JObj [(''name'', JStr ''A''), (''properties'', JObj [])]]) = Inr [(formSearchKey, JStr [])] \<and>
   formValueToView [(formViewNameKey, JStr ''B'')]
     (JArr [JObj [(''name'', JStr ''A''), (''properties'', JObj [])]]) = Inl SyntaxError"
  using viewToFormValue_missing_view
    [of "[(formViewNameKey, JStr ''B'')]" "[(formViewNameKey, JStr ''A'')]"
        "JArr [JObj [(''name'', JStr ''A''), (''properties'', JObj [])]]"]
  by (simp add: obj_eval strict_eq_def)

text \<open>
  Claim C4. When \<^verbatim>\<open>_view\<close> of the next form value is set and differs from that of the
  previous one, \<open>normalizeValue\<close> returns \<open>viewToFormValue\<close> of the view that \<^verbatim>\<open>find\<close> gives
  for the new name, and so does every other next form value with the same \<^verbatim>\<open>_view\<close>: the
  other fields of the event play no part.
\<close>

theorem normalizeValue_view_switch:
  assumes "truthy (get nxt formViewNameKey)"
    and "strict_eq (get nxt formViewNameKey) (get prev formViewNameKey) = Inr False"
    and "find_view views (get nxt formViewNameKey) = Inr matchingView"
  shows "normalizeValue nxt prev views = Inr (viewToFormValue matchingView) \<and>
         (\<forall>other. get other formViewNameKey = get nxt formViewNameKey \<longrightarrow>
            normalizeValue other prev views = Inr (viewToFormValue matchingView))"
  using assms by (simp add: normalizeValue_def)

theorem normalizeValue_view_switch_witness:
  "truthy (get [(formViewNameKey, JStr ''B''), (''q'', JStr ''x'')] formViewNameKey) \<and>
   strict_eq (get [(formViewNameKey, JStr ''B''), (''q'', JStr ''x'')] formViewNameKey)
     (get [(formViewNameKey, JStr ''A'')] formViewNameKey) = Inr False \<and>
   find_view (JArr [JObj [(''name'', JStr ''A''), (''properties'', JObj [(''status'', JStr ''open'')])],
                    JObj [(''name'', JStr ''B''), (''properties'', JObj [(''status'', JStr ''shut'')])]])
     (get [(formViewNameKey, JStr ''B''), (''q'', JStr ''x'')] formViewNameKey)
     = Inr (JObj [(''name'', JStr ''B''), (''properties'', JObj [(''status'', JStr ''shut'')])]) \<and>
   normalizeValue [(formViewNameKey, JStr ''B''), (''q'', JStr ''x'')] [(formViewNameKey, JStr ''A'')]
     (JArr [JObj [(''name'', JStr ''A''), (''properties'', JObj [(''status'', JStr ''open'')])],
            JObj [(''name'', JStr ''B''), (''properties'', JObj [(''status'', JStr ''shut'')])]])
     = Inr [(''status'', JStr ''shut''), (formSearchKey, JStr []), (formViewNameKey, JStr ''B'')] \<and>
   get [(''status'', JStr ''shut''), (formSearchKey, JStr []), (formViewNameKey, JStr ''B'')] ''q''
     = JUndefined"
proof -
  let ?vB = "JObj [(''name'', JStr ''B''), (''properties'', JObj [(''status'', JStr ''shut'')])]"
  let ?views = "JArr [JObj [(''name'', JStr ''A''), (''properties'', JObj [(''status'', JStr ''open'')])], ?vB]"
  let ?nxt = "[(formViewNameKey, JStr ''B''), (''q'', JStr ''x'')]"
  let ?prev = "[(formViewNameKey, JStr ''A'')]"
  have t: "truthy (get ?nxt formViewNameKey)" by (simp add: obj_eval)
  have d: "strict_eq (get ?nxt formViewNameKey) (get ?prev formViewNameKey) = Inr False"
    by (simp add: obj_eval strict_eq_def)
  have f: "find_view ?views (get ?nxt formViewNameKey) = Inr ?vB"
    by (simp add: obj_eval strict_eq_def)
  have e: "viewToFormValue ?vB = [(''status'', JStr ''shut''), (formSearchKey, JStr []), (formViewNameKey, JStr ''B'')]"
    by (simp add: codec_defs obj_eval)
  from normalizeValue_view_switch [OF t d f] t d f e show ?thesis
    by (simp add: obj_eval)
qed

subsection \<open>transformTouched\<close>

lemma get_chain_Nil:
  "get_chain [] k = (case object_prototype k of None \<Rightarrow> JUndefined | Some v \<Rightarrow> v)"
  by (simp add: get_chain_def)

lemma get_chain_Cons: "get_chain ((a, b) # m) k = (if k = a then b else get_chain m k)"
  by (simp add: get_chain_def)

lemma get_chain_own:
  assumes "k \<in> fst ` set m \<or> object_prototype k = None"
  shows "get_chain m k = get m k"
proof (cases "map_of m k")
  case None
  then have "k \<notin> fst ` set m" by (simp add: map_of_eq_None_iff)
  with assms have "object_prototype k = None" by blast
  with None show ?thesis by (simp add: get_chain_def get_def)
next
  case (Some x)
  then show ?thesis by (simp add: get_chain_def get_def)
qed

lemma touched_fold_map_of:
  "map_of (foldl (\<lambda>result key. set_prop result key (f key)) r ks) k =
     (if k \<in> set ks then Some (f k) else map_of r k)"
  by (induction ks arbitrary: r) (auto simp: map_of_set_prop)

lemma touched_fold_keys:
  "distinct (map fst r) \<Longrightarrow>
   distinct (map fst (foldl (\<lambda>result key. set_prop result key (f key)) r ks)) \<and>
   fst ` set (foldl (\<lambda>result key. set_prop result key (f key)) r ks) = fst ` set r \<union> set ks"
proof (induction ks arbitrary: r)
  case Nil
  then show ?case by simp
next
  case (Cons a ks)
  have d: "distinct (map fst (set_prop r a (f a)))"
    using Cons.prems by (simp add: set_prop_def distinct_update)
  have k: "fst ` set (set_prop r a (f a)) = insert a (fst ` set r)"
    by (simp add: set_prop_def dom_update)
  from Cons.IH [OF d] k show ?case by auto
qed

lemma touched_fold_order:
  "distinct (map fst r @ ks) \<Longrightarrow>
   map fst (foldl (\<lambda>result key. set_prop result key (f key)) r ks) = map fst r @ ks"
proof (induction ks arbitrary: r)
  case Nil
  then show ?case by simp
next
  case (Cons a ks)
  from Cons.prems have a: "a \<notin> fst ` set r" by auto
  then have k: "map fst (set_prop r a (f a)) = map fst r @ [a]"
    by (simp add: set_prop_def update_keys)
  from Cons.prems have "distinct (map fst (set_prop r a (f a)) @ ks)"
    unfolding k by auto
  from Cons.IH [OF this] k show ?case by simp
qed

lemma skip_proto_fold:
  "p \<notin> set ks \<Longrightarrow>
   foldl (\<lambda>result key. if key = p then result else set_prop result key (f key)) r ks =
     foldl (\<lambda>result key. set_prop result key (f key)) r ks"
proof (induction ks arbitrary: r)
  case Nil
  then show ?case by simp
next
  case (Cons a ks)
  then have "a \<noteq> p" and "p \<notin> set ks" by auto
  with Cons.IH show ?case by simp
qed

text \<open>
  Apart from the paths that name a member of \<^verbatim>\<open>Object.prototype\<close>, \<open>transformTouched\<close> does
  what is expected of it: when \<^verbatim>\<open>__proto__\<close> is not touched, the result has one entry for
  each touched path, in their order, and the value of a path is read from the form value at
  the first segment when the second segment is \<^verbatim>\<open>_range\<close> and at the whole path otherwise;
  the read is that of an own property when the form value has the key or the key names no
  member of \<^verbatim>\<open>Object.prototype\<close>.
\<close>

lemma transformTouched_plain_paths:
  assumes "''__proto__'' \<notin> fst ` set touched"
  shows "distinct (map fst (transformTouched touched v)) \<and>
   fst ` set (transformTouched touched v) = fst ` set touched \<and>
   (distinct (map fst touched) \<longrightarrow> map fst (transformTouched touched v) = map fst touched) \<and>
   (\<forall>key \<in> fst ` set touched.
      map_of (transformTouched touched v) key =
        Some (case split_dot key of
                first # second # rest \<Rightarrow>
                  if second = formRangeKey then get_chain v first else get_chain v key
              | _ \<Rightarrow> get_chain v key))"
proof -
  have tv: "touched_value v key =
      (case split_dot key of
         first # second # rest \<Rightarrow> if second = formRangeKey then get_chain v first else get_chain v key
       | _ \<Rightarrow> get_chain v key)" for key
    by (cases "split_dot key"; simp add: touched_value_def Let_def split: list.splits)
  from assms have "''__proto__'' \<notin> set (map fst touched)" by simp
  then have "transformTouched touched v =
      foldl (\<lambda>result key. set_prop result key (touched_value v key)) [] (map fst touched)"
    unfolding transformTouched_def by (rule skip_proto_fold)
  then show ?thesis
    using touched_fold_keys [of "[]" "touched_value v" "map fst touched"]
      touched_fold_order [of "[]" "map fst touched" "touched_value v"]
    by (simp add: touched_fold_map_of tv)
qed

text \<open>
  Claim C8. The claim is that every touched path gets an entry whose value is the value
  stored in the form value at the path (at its first segment for a range). The code reads
  \<^verbatim>\<open>value[key]\<close> and writes \<^verbatim>\<open>result[key]\<close> without asking whether the key is the object's
  own. For the path \<^verbatim>\<open>constructor\<close> and a form value that stores nothing under it (the
  filter of that name was emptied and pruned) the entry holds the inherited function
  \<^verbatim>\<open>Object\<close>; and the path \<^verbatim>\<open>__proto__\<close> gets no entry at all.
\<close>

theorem transformTouched_inherited_paths:
  "transformTouched [(''constructor'', JBool True)] [(formSearchKey, JStr [])]
     = [(''constructor'', JFunction ''Object'')] \<and>
   map_of [(formSearchKey, JStr [])] ''constructor'' = None \<and>
   transformTouched [(''__proto__'', JBool True), (''q'', JBool True)] [(''q'', JStr ''x'')]
     = [(''q'', JStr ''x'')]"
  by (simp add: transformTouched_def touched_value_def get_chain_Nil get_chain_Cons
      object_prototype_def obj_eval)

subsection \<open>normalizeValue, the edit branch\<close>

lemma stringify_json_value: "json_value x \<Longrightarrow> stringify x = Some x"
  and stringify_json_values: "json_values xs \<Longrightarrow> stringify_elems xs = xs"
  and stringify_json_props: "json_props m \<Longrightarrow> stringify_props m = m"
  by (induction x and xs and m rule: stringify_stringify_elems_stringify_props.induct) auto

lemma diverged_iff:
  assumes "\<forall>k \<in> fst ` set viewValue. k \<in> fst ` set result \<or> object_prototype k = None"
  shows "diverged viewValue result \<longleftrightarrow>
     (\<exists>k. truthy (get viewValue k) \<and> truthy (get result k) \<and>
          stringify (get result k) \<noteq> stringify (get viewValue k))"
proof -
  have keys: "k \<in> fst ` set viewValue" if "truthy (get viewValue k)" for k
    using that get_in_keys [of viewValue k] by (cases "get viewValue k") auto
  have own: "get_chain result k = get result k" if "k \<in> set (map fst viewValue)" for k
  proof (rule get_chain_own)
    from that have "k \<in> fst ` set viewValue" by simp
    with assms show "k \<in> fst ` set result \<or> object_prototype k = None" by (rule bspec)
  qed
  have "diverged viewValue result \<longleftrightarrow>
     list_ex (\<lambda>k. truthy (get viewValue k) \<and> truthy (get result k) \<and>
                   stringify (get result k) \<noteq> stringify (get viewValue k)) (map fst viewValue)"
    unfolding diverged_def by (rule list_ex_cong) (simp_all only: own)
  also have "\<dots> \<longleftrightarrow> (\<exists>k. truthy (get viewValue k) \<and> truthy (get result k) \<and>
          stringify (get result k) \<noteq> stringify (get viewValue k))"
    unfolding list_ex_iff using keys by auto
  finally show ?thesis .
qed

lemma truthy_primitive_clearEmpty:
  "truthy (get m k) \<Longrightarrow> is_primitive (get m k) \<Longrightarrow> get (clearEmpty m) k = get m k"
  by (auto simp: get_clearEmpty)

lemma strict_eq_True: "strict_eq a b = Inr True \<Longrightarrow> is_primitive a \<and> a = b"
  by (auto simp: strict_eq_def split: if_splits)

text \<open>
  Claim C3, as the code has it. In the edit branch with a view name (the name of the next
  form value is set and is that of the previous one, and \<^verbatim>\<open>find\<close> returns), and when each
  key of the pruned encoding of the named view either is a key of the pruned next form
  value or names no member of \<^verbatim>\<open>Object.prototype\<close>, \<open>normalizeValue\<close> returns the pruned next
  form value, from which \<^verbatim>\<open>_view\<close> is deleted exactly when some key has a truthy value in both
  the pruned encoding of the named view and the pruned next form value and the two values
  differ as JSON texts. The key \<^verbatim>\<open>_view\<close> is in the pruned next form value and is not in the
  result of the deletion, so it is deleted if and only if such a key exists; a key whose
  value is falsy or missing on either side does not count. On values that a JSON text can
  denote the texts differ exactly when the values do, the order of the keys of an object
  included.
\<close>

theorem normalizeValue_edit_branch:
  assumes "truthy (get nxt formViewNameKey)"
    and "strict_eq (get nxt formViewNameKey) (get prev formViewNameKey) = Inr True"
    and "find_view views (get nxt formViewNameKey) = Inr view"
    and "\<forall>k \<in> fst ` set (clearEmpty (viewToFormValue view)).
           k \<in> fst ` set (clearEmpty nxt) \<or> object_prototype k = None"
  shows "normalizeValue nxt prev views =
           Inr (if (\<exists>k. truthy (get (clearEmpty (viewToFormValue view)) k) \<and>
                        truthy (get (clearEmpty nxt) k) \<and>
                        stringify (get (clearEmpty nxt) k) \<noteq>
                          stringify (get (clearEmpty (viewToFormValue view)) k))
                then delete_prop (clearEmpty nxt) formViewNameKey
                else clearEmpty nxt) \<and>
         formViewNameKey \<in> fst ` set (clearEmpty nxt) \<and>
         formViewNameKey \<notin> fst ` set (delete_prop (clearEmpty nxt) formViewNameKey) \<and>
         (\<forall>a b. json_value a \<and> json_value b \<longrightarrow> (stringify a \<noteq> stringify b \<longleftrightarrow> a \<noteq> b))"
proof -
  from assms(2) have p: "is_primitive (get nxt formViewNameKey)"
    by (rule strict_eq_True [THEN conjunct1])
  have g: "get (clearEmpty nxt) formViewNameKey = get nxt formViewNameKey"
    using assms(1) p by (rule truthy_primitive_clearEmpty)
  have "get (clearEmpty nxt) formViewNameKey \<noteq> JUndefined"
    using assms(1) g by auto
  then have inkeys: "formViewNameKey \<in> fst ` set (clearEmpty nxt)"
    by (rule get_in_keys)
  have out: "formViewNameKey \<notin> fst ` set (delete_prop (clearEmpty nxt) formViewNameKey)"
    unfolding delete_prop_def by (rule delete_notin_dom)
  have n: "normalizeValue nxt prev views = edit_branch nxt views"
    using assms(1,2) by (simp add: normalizeValue_def)
  have e: "edit_branch nxt views =
      Inr (if diverged (clearEmpty (viewToFormValue view)) (clearEmpty nxt)
           then delete_prop (clearEmpty nxt) formViewNameKey else clearEmpty nxt)"
    using assms(1,3) by (simp add: edit_branch_def g Let_def)
  have j: "\<forall>a b. json_value a \<and> json_value b \<longrightarrow> (stringify a \<noteq> stringify b \<longleftrightarrow> a \<noteq> b)"
    by (auto simp: stringify_json_value)
  show ?thesis
    unfolding n e diverged_iff [OF assms(4)] using inkeys out j by blast
qed

theorem normalizeValue_edit_branch_witness:
  "truthy (get [(formViewNameKey, JStr ''A''), (''status'', JStr ''closed'')] formViewNameKey) \<and>
   strict_eq (get [(formViewNameKey, JStr ''A''), (''status'', JStr ''closed'')] formViewNameKey)
     (get [(formViewNameKey, JStr ''A''), (''status'', JStr ''open'')] formViewNameKey) = Inr True \<and>
   find_view (JArr [JObj [(''name'', JStr ''A''), (''properties'', JObj [(''status'', JStr ''open'')])]])
     (get [(formViewNameKey, JStr ''A''), (''status'', JStr ''closed'')] formViewNameKey)
     = Inr (JObj [(''name'', JStr ''A''), (''properties'', JObj [(''status'', JStr ''open'')])]) \<and>
   map fst (clearEmpty (viewToFormValue
        (JObj [(''name'', JStr ''A''), (''properties'', JObj [(''status'', JStr ''open'')])])))
     = [''status'', formSearchKey, formViewNameKey] \<and>
   object_prototype ''status'' = None \<and>
   object_prototype formSearchKey = None \<and>
   object_prototype formViewNameKey = None \<and>
   normalizeValue [(formViewNameKey, JStr ''A''), (''status'', JStr ''closed'')]
     [(formViewNameKey, JStr ''A''), (''status'', JStr ''open'')]
     (JArr [JObj [(''name'', JStr ''A''), (''properties'', JObj [(''status'', JStr ''open'')])]])
     = Inr [(''status'', JStr ''closed'')]"
proof -
  let ?vA = "JObj [(''name'', JStr ''A''), (''properties'', JObj [(''status'', JStr ''open'')])]"
  let ?nxt = "[(formViewNameKey, JStr ''A''), (''status'', JStr ''closed'')]"
  let ?prev = "[(formViewNameKey, JStr ''A''), (''status'', JStr ''open'')]"
  have t: "truthy (get ?nxt formViewNameKey)" by (simp add: obj_eval)
  have s: "strict_eq (get ?nxt formViewNameKey) (get ?prev formViewNameKey) = Inr True"
    by (simp add: obj_eval strict_eq_def)
  have f: "find_view (JArr [?vA]) (get ?nxt formViewNameKey) = Inr ?vA"
    by (simp add: obj_eval strict_eq_def)
  have c: "clearEmpty ?nxt = ?nxt"
    by (simp add: clearEmpty_def obj_eval)
  have v: "clearEmpty (viewToFormValue ?vA) =
      [(''status'', JStr ''open''), (formSearchKey, JStr []), (formViewNameKey, JStr ''A'')]"
    by (simp add: clearEmpty_def codec_defs obj_eval)
  have o: "\<forall>k \<in> fst ` set (clearEmpty (viewToFormValue ?vA)).
      k \<in> fst ` set (clearEmpty ?nxt) \<or> object_prototype k = None"
    unfolding c v by (simp add: object_prototype_def)
  have d: "\<exists>k. truthy (get (clearEmpty (viewToFormValue ?vA)) k) \<and> truthy (get (clearEmpty ?nxt) k) \<and>
      stringify (get (clearEmpty ?nxt) k) \<noteq> stringify (get (clearEmpty (viewToFormValue ?vA)) k)"
    unfolding c v by (rule exI [of _ "''status''"]) (simp add: obj_eval)
  from normalizeValue_edit_branch [OF t s f o, THEN conjunct1] d
  have "normalizeValue ?nxt ?prev (JArr [?vA]) = Inr (delete_prop (clearEmpty ?nxt) formViewNameKey)"
    by simp
  then have "normalizeValue ?nxt ?prev (JArr [?vA]) = Inr [(''status'', JStr ''closed'')]"
    unfolding c by (simp add: obj_eval)
  moreover have "object_prototype ''status'' = None" "object_prototype formSearchKey = None"
    "object_prototype formViewNameKey = None"
    by (simp_all add: object_prototype_def)
  moreover have "map fst (clearEmpty (viewToFormValue ?vA)) = [''status'', formSearchKey, formViewNameKey]"
    unfolding v by simp
  ultimately show ?thesis using t s f by simp
qed

text \<open>
  Claim C3 as stated fails: the comparison is on JSON texts, not on structure. The named
  view sorts by \<^verbatim>\<open>{property: "name", direction: "asc"}\<close>; the next form value has the same
  sort with its keys in the other order, \<^verbatim>\<open>{direction: "asc", property: "name"}\<close>, and is
  otherwise the encoding of the view. Every key of the encoding is falsy (\<^verbatim>\<open>_search\<close>) or
  has a structurally equal value in the next form value (\<^verbatim>\<open>_sort\<close>, \<^verbatim>\<open>_view\<close>), and \<^verbatim>\<open>_view\<close> is
  deleted all the same.
\<close>

theorem normalizeValue_key_order_counterexample:
  "normalizeValue
     [(formSortKey, JObj [(''direction'', JStr ''asc''), (''property'', JStr ''name'')]),
      (formSearchKey, JStr []), (formViewNameKey, JStr ''A'')]
     [(formSortKey, JObj [(''property'', JStr ''name''), (''direction'', JStr ''asc'')]),
      (formSearchKey, JStr []), (formViewNameKey, JStr ''A'')]
     (JArr [JObj [(''name'', JStr ''A''), (''properties'', JObj []),
                  (''sort'', JObj [(''property'', JStr ''name''), (''direction'', JStr ''asc'')])]])
     = Inr [(formSortKey, JObj [(''direction'', JStr ''asc''), (''property'', JStr ''name'')]),
            (formSearchKey, JStr [])] \<and>
   clearEmpty (viewToFormValue
     (JObj [(''name'', JStr ''A''), (''properties'', JObj []),
            (''sort'', JObj [(''property'', JStr ''name''), (''direction'', JStr ''asc'')])]))
     = [(formSortKey, JObj [(''property'', JStr ''name''), (''direction'', JStr ''asc'')]),
        (formSearchKey, JStr []), (formViewNameKey, JStr ''A'')] \<and>
   struct_eq (JObj [(''direction'', JStr ''asc''), (''property'', JStr ''name'')])
     (JObj [(''property'', JStr ''name''), (''direction'', JStr ''asc'')]) \<and>
   \<not> truthy (JStr []) \<and>
   struct_eq (JStr ''A'') (JStr ''A'')"
proof -
  have s: "{''direction'', ''property''} = {''property'', ''direction''}"
    by (rule insert_commute)
  show ?thesis
    by (simp add: normalizeValue_def edit_branch_def diverged_def clearEmpty_def codec_defs obj_eval
        get_chain_Cons strict_eq_def struct_eq.simps s)
qed

text \<open>
  The hypothesis on the keys of the encoding is needed. The lookup \<^verbatim>\<open>result[k]\<close> of the
  comparison finds the members of \<^verbatim>\<open>Object.prototype\<close>: when the named view filters a
  property called \<^verbatim>\<open>constructor\<close> and the next form value has no such key, the inherited
  function counts as a value that differs, and \<^verbatim>\<open>_view\<close> is deleted although nothing was
  edited.
\<close>

lemma normalizeValue_inherited_key:
  "normalizeValue [(formViewNameKey, JStr ''A'')] [(formViewNameKey, JStr ''A'')]
     (JArr [JObj [(''name'', JStr ''A''), (''properties'', JObj [(''constructor'', JStr ''x'')])]])
     = Inr []"
  by (simp add: normalizeValue_def edit_branch_def diverged_def clearEmpty_def codec_defs obj_eval
      get_chain_Nil get_chain_Cons object_prototype_def strict_eq_def)

subsection \<open>The component\<close>

text \<open>
  Claim C5, as the code has it. A change event whose handler gets as far as the commit
  sets \<^verbatim>\<open>changed\<close> to \<open>true\<close>, a submit event sets it to \<open>false\<close>, both with the normalized
  value as the new form value; a reset sets \<^verbatim>\<open>changed\<close> to \<open>false\<close> and the form value to the
  encoding of the current view. The arrival of a view sets the form value to the encoding
  of that view and leaves \<^verbatim>\<open>changed\<close> as it was. On first activation the form value is the
  encoding of the view and the form does not count as edited.
\<close>

theorem controller_dirty_flag:
  "(normalizeValue v (formValue s) (ctx_views ctx) = Inr n \<and> resetPage n (formValue s) = Inr nextValue \<longrightarrow>
      dirty (fst (onChange ctx s v touched)) \<and>
      formValue (fst (onChange ctx s v touched)) = nextValue \<and>
      \<not> dirty (fst (onSubmit ctx s v touched)) \<and>
      formValue (fst (onSubmit ctx s v touched)) = nextValue) \<and>
   \<not> dirty (fst (onReset ctx s)) \<and>
   formValue (fst (onReset ctx s)) = viewToFormValue (ctx_view ctx) \<and>
   formValue (fst (view_effect ctx s)) = viewToFormValue (ctx_view ctx) \<and>
   dirty (fst (view_effect ctx s)) = dirty s \<and>
   formValue (mount ctx) = viewToFormValue (ctx_view ctx) \<and>
   \<not> dirty (mount ctx)"
  by (auto simp: onChange_def onSubmit_def onReset_def view_effect_def mount_def dirty_def Let_def
      split: sum.splits)

lemma mount_ctx0: "mount ctx0 = \<lparr>formValue = [(formSearchKey, JStr [])], changed = None\<rparr>"
  by (simp add: mount_def ctx0_def codec_defs obj_eval)

lemma normalize_ctx0:
  "normalizeValue [(formSearchKey, JStr ''x'')] [(formSearchKey, JStr [])] (JArr [])
     = Inr [(formSearchKey, JStr ''x'')]"
  by (simp add: normalizeValue_def edit_branch_def clearEmpty_def obj_eval)

lemma reset_ctx0:
  "resetPage [(formSearchKey, JStr ''x'')] [(formSearchKey, JStr [])] = Inr [(formSearchKey, JStr ''x'')]"
  by (simp add: resetPage_def obj_eval)

lemma onChange_ctx0:
  "fst (onChange ctx0 (mount ctx0) [(formSearchKey, JStr ''x'')] [(formSearchKey, JBool True)])
     = \<lparr>formValue = [(formSearchKey, JStr ''x'')], changed = Some True\<rparr>"
  unfolding mount_ctx0
  by (simp add: onChange_def normalize_ctx0 reset_ctx0) (simp add: ctx0_def normalize_ctx0 reset_ctx0)

theorem controller_dirty_flag_witness:
  "normalizeValue [(formSearchKey, JStr ''x'')] (formValue (mount ctx0)) (ctx_views ctx0)
     = Inr [(formSearchKey, JStr ''x'')] \<and>
   resetPage [(formSearchKey, JStr ''x'')] (formValue (mount ctx0)) = Inr [(formSearchKey, JStr ''x'')] \<and>
   dirty (fst (onChange ctx0 (mount ctx0) [(formSearchKey, JStr ''x'')] [(formSearchKey, JBool True)])) \<and>
   \<not> dirty (fst (onSubmit ctx0 (mount ctx0) [(formSearchKey, JStr ''x'')] [(formSearchKey, JBool True)]))"
proof -
  have n: "normalizeValue [(formSearchKey, JStr ''x'')] (formValue (mount ctx0)) (ctx_views ctx0)
     = Inr [(formSearchKey, JStr ''x'')]"
    unfolding mount_ctx0 by (simp add: ctx0_def normalize_ctx0)
  have r: "resetPage [(formSearchKey, JStr ''x'')] (formValue (mount ctx0)) = Inr [(formSearchKey, JStr ''x'')]"
    unfolding mount_ctx0 by (simp add: reset_ctx0)
  from controller_dirty_flag
    [of "[(formSearchKey, JStr ''x'')]" "mount ctx0" ctx0 "[(formSearchKey, JStr ''x'')]"
        "[(formSearchKey, JStr ''x'')]" "[(formSearchKey, JBool True)]"] n r
  show ?thesis by blast
qed

text \<open>
  Claim C5 as stated fails: the claim has the arrival of a view set the flag to \<open>false\<close>.
  After a change event the form is dirty; when the owner then replaces the view, the form
  value becomes the encoding of the new view and the form is still dirty.
\<close>

theorem view_arrival_keeps_dirty:
  "dirty (fst (view_effect ctx1
     (fst (onChange ctx0 (mount ctx0) [(formSearchKey, JStr ''x'')] [(formSearchKey, JBool True)])))) \<and>
   formValue (fst (view_effect ctx1
     (fst (onChange ctx0 (mount ctx0) [(formSearchKey, JStr ''x'')] [(formSearchKey, JBool True)]))))
     = [(formSearchKey, JStr ''y'')]"
  unfolding onChange_ctx0
  by (simp add: view_effect_def dirty_def ctx1_def ctx0_def codec_defs obj_eval)

subsection \<open>The codec round trip\<close>

lemma struct_eq_refl: "struct_eq x x"
proof (induction x)
  case (JArr xs)
  then show ?case by (simp add: struct_eq.simps list_all2_same)
next
  case (JObj m)
  have "struct_eq (get m k) (get m k)" if "k \<in> fst ` set m" for k
  proof -
    from that obtain v where v: "map_of m k = Some v"
      by (metis domD dom_map_of_conv_image_fst)
    then have "(k, v) \<in> set m" by (rule map_of_SomeD)
    then have "struct_eq v v"
      using JObj.IH [of "(k, v)" v] by simp
    with v show ?thesis by (simp add: get_def)
  qed
  then show ?case by (simp add: struct_eq.simps)
qed (simp_all add: struct_eq.simps)

lemma get_append_notin: "k \<notin> fst ` set pre \<Longrightarrow> get (pre @ m) k = get m k"
  by (induction pre) (auto simp: get_def)

lemma set_prop_append_notin: "k \<notin> fst ` set pre \<Longrightarrow> set_prop (pre @ m) k v = pre @ set_prop m k v"
  by (induction pre) (auto simp: set_prop_def)

lemma to_range_step:
  "k \<notin> fst ` set pre \<Longrightarrow> to_range (pre @ (k, x) # suf) k = pre @ (k, encode_value x) # suf"
  by (simp add: to_range_def encode_value_def get_append_notin set_prop_append_notin obj_eval)

lemma fold_to_range_gen:
  "distinct (map fst (pre @ suf)) \<Longrightarrow>
   foldl to_range (pre @ suf) (map fst suf) = pre @ map (\<lambda>kv. (fst kv, encode_value (snd kv))) suf"
proof (induction suf arbitrary: pre)
  case Nil
  then show ?case by simp
next
  case (Cons kv suf)
  obtain k x where kv: "kv = (k, x)" by (cases kv)
  from Cons.prems have notin: "k \<notin> fst ` set pre" by (auto simp: kv)
  from Cons.prems have d: "distinct (map fst ((pre @ [(k, encode_value x)]) @ suf))" by (auto simp: kv)
  from Cons.IH [OF d] show ?case
    by (simp add: kv to_range_step [OF notin])
qed

lemma fold_to_range:
  "distinct (map fst m) \<Longrightarrow> foldl to_range m (map fst m) = map (\<lambda>kv. (fst kv, encode_value (snd kv))) m"
  using fold_to_range_gen [of "[]" m] by simp

lemma from_range_step:
  "k \<notin> fst ` set pre \<Longrightarrow> x \<noteq> JUndefined \<Longrightarrow> x \<noteq> JNull \<Longrightarrow>
   from_range (Inr (pre @ (k, x) # suf)) k = Inr (pre @ (k, decode_value x) # suf)"
  by (simp add: from_range_def decode_value_def get_append_notin set_prop_append_notin obj_eval)

lemma fold_from_range_gen:
  "distinct (map fst (pre @ suf)) \<Longrightarrow> \<forall>kv \<in> set suf. snd kv \<noteq> JUndefined \<and> snd kv \<noteq> JNull \<Longrightarrow>
   foldl from_range (Inr (pre @ suf)) (map fst suf) =
     Inr (pre @ map (\<lambda>kv. (fst kv, decode_value (snd kv))) suf)"
proof (induction suf arbitrary: pre)
  case Nil
  then show ?case by simp
next
  case (Cons kv suf)
  obtain k x where kv: "kv = (k, x)" by (cases kv)
  from Cons.prems have notin: "k \<notin> fst ` set pre" by (auto simp: kv)
  from Cons.prems have x: "x \<noteq> JUndefined" "x \<noteq> JNull" by (auto simp: kv)
  from Cons.prems have d: "distinct (map fst ((pre @ [(k, decode_value x)]) @ suf))" by (auto simp: kv)
  from Cons.prems have r: "\<forall>kv \<in> set suf. snd kv \<noteq> JUndefined \<and> snd kv \<noteq> JNull" by simp
  from Cons.IH [OF d r] show ?case
    by (simp add: kv from_range_step [OF notin x])
qed

lemma fold_from_range:
  "distinct (map fst m) \<Longrightarrow> \<forall>kv \<in> set m. snd kv \<noteq> JUndefined \<and> snd kv \<noteq> JNull \<Longrightarrow>
   foldl from_range (Inr m) (map fst m) = Inr (map (\<lambda>kv. (fst kv, decode_value (snd kv))) m)"
  using fold_from_range_gen [of "[]" m] by simp

lemma is_number_iff: "is_number x \<longleftrightarrow> (\<exists>n. x = JNum n)"
  by (cases x) auto

lemma wf_filter_range:
  assumes "wf_filter (JObj m)"
  shows "\<exists>a b. m = [(''min'', JNum a), (''max'', JNum b)] \<or> m = [(''max'', JNum b), (''min'', JNum a)]"
proof -
  from assms obtain p q where m: "m = [p, q]"
    by (auto simp: map_eq_Cons_conv)
  obtain k1 x1 k2 x2 where pq: "p = (k1, x1)" "q = (k2, x2)"
    by (cases p, cases q) auto
  from assms show ?thesis
    unfolding m pq by (auto simp: is_number_iff)
qed

lemma wf_filter_round_trip:
  "wf_filter x \<Longrightarrow> struct_eq (decode_value (encode_value x)) x"
proof (cases x)
  case (JObj m)
  assume "wf_filter x"
  with JObj wf_filter_range [of m]
  obtain a b where "m = [(''min'', JNum a), (''max'', JNum b)] \<or> m = [(''max'', JNum b), (''min'', JNum a)]"
    by auto
  with JObj show ?thesis
    by (auto simp: struct_eq.simps encode_value_def decode_value_def obj_eval)
qed (auto simp: encode_value_def decode_value_def struct_eq_refl)

lemma wf_filter_defined: "wf_filter x \<Longrightarrow> encode_value x \<noteq> JUndefined \<and> encode_value x \<noteq> JNull"
  by (cases x) (auto simp: encode_value_def)


lemma filter_set_prop_form_key:
  "k \<in> set (map snd viewFormKeyMap) \<Longrightarrow>
   filter (\<lambda>kv. \<not> form_key kv) (set_prop m k x) = filter (\<lambda>kv. \<not> form_key kv) m"
  by (induction m) (auto simp: set_prop_def form_key_def)

lemma filter_copy_field:
  "snd km \<in> set (map snd viewFormKeyMap) \<Longrightarrow>
   filter (\<lambda>kv. \<not> form_key kv) (copy_field view r km) = filter (\<lambda>kv. \<not> form_key kv) r"
  by (simp add: copy_field_def filter_set_prop_form_key)

lemma get_map_values:
  "get (map (\<lambda>kv. (fst kv, f (snd kv))) m) k = (if k \<in> fst ` set m then f (get m k) else JUndefined)"
  by (induction m) (auto simp: get_def)

lemma get_copy_field:
  "get (copy_field view r km) k =
     (if truthy (get_prop view (fst km)) \<and> k = snd km then get_prop view (fst km) else get r k)"
  by (simp add: copy_field_def get_set_prop)

lemma encode_props:
  assumes "get v ''properties'' = JObj ps" and "distinct (map fst ps)"
    and "\<forall>kv \<in> set ps. \<not> form_key kv"
  shows "filter (\<lambda>kv. \<not> form_key kv) (viewToFormValue (JObj v)) =
           map (\<lambda>kv. (fst kv, encode_value (snd kv))) ps"
proof -
  have "filter (\<lambda>kv. \<not> form_key kv) (map (\<lambda>kv. (fst kv, encode_value (snd kv))) ps) =
          map (\<lambda>kv. (fst kv, encode_value (snd kv))) ps"
    using assms(3) by (intro filter_True) (auto simp: form_key_def)
  then show ?thesis
    using assms(1,2)
    by (simp add: viewToFormValue_def Let_def fold_to_range filter_copy_field filter_set_prop_form_key
        viewFormKeyMap_def)
qed

lemma encode_fields:
  assumes "get v ''properties'' = JObj ps" and "distinct (map fst ps)"
    and "\<forall>kv \<in> set ps. \<not> form_key kv"
  shows "get (viewToFormValue (JObj v)) formSearchKey =
           (if truthy (get v ''search'') then get v ''search'' else JStr [])"
    and "get (viewToFormValue (JObj v)) formSortKey =
           (if truthy (get v ''sort'') then get v ''sort'' else JUndefined)"
    and "get (viewToFormValue (JObj v)) formStepKey =
           (if truthy (get v ''step'') then get v ''step'' else JUndefined)"
    and "get (viewToFormValue (JObj v)) formPageKey =
           (if truthy (get v ''page'') then get v ''page'' else JUndefined)"
    and "get (viewToFormValue (JObj v)) formColumnsKey =
           (if truthy (get v ''columns'') then get v ''columns'' else JUndefined)"
    and "get (viewToFormValue (JObj v)) formViewNameKey =
           (if truthy (get v ''name'') then get v ''name''
            else if truthy (get v ''view'') then get v ''view'' else JUndefined)"
proof -
  have none: "k \<in> set (map snd viewFormKeyMap) \<Longrightarrow> k \<notin> fst ` set ps" for k
    using assms(3) by (force simp: form_key_def)
  have k: "formSearchKey \<notin> fst ` set ps" "formSortKey \<notin> fst ` set ps" "formStepKey \<notin> fst ` set ps"
    "formPageKey \<notin> fst ` set ps" "formColumnsKey \<notin> fst ` set ps" "formViewNameKey \<notin> fst ` set ps"
    by (rule none, simp add: viewFormKeyMap_def)+
  note s = viewToFormValue_def Let_def fold_to_range viewFormKeyMap_def get_copy_field get_set_prop
    get_map_values assms(1,2) k
  show "get (viewToFormValue (JObj v)) formSearchKey =
           (if truthy (get v ''search'') then get v ''search'' else JStr [])"
    by (simp add: s)
  show "get (viewToFormValue (JObj v)) formSortKey =
           (if truthy (get v ''sort'') then get v ''sort'' else JUndefined)"
    by (simp add: s)
  show "get (viewToFormValue (JObj v)) formStepKey =
           (if truthy (get v ''step'') then get v ''step'' else JUndefined)"
    by (simp add: s)
  show "get (viewToFormValue (JObj v)) formPageKey =
           (if truthy (get v ''page'') then get v ''page'' else JUndefined)"
    by (simp add: s)
  show "get (viewToFormValue (JObj v)) formColumnsKey =
           (if truthy (get v ''columns'') then get v ''columns'' else JUndefined)"
    by (simp add: s)
  show "get (viewToFormValue (JObj v)) formViewNameKey =
           (if truthy (get v ''name'') then get v ''name''
            else if truthy (get v ''view'') then get v ''view'' else JUndefined)"
    by (simp add: s)
qed


lemma take_field_fold_snd:
  "snd (foldl take_field rc km) = foldl delete_prop (snd rc) (map snd km)"
  by (induction km arbitrary: rc) (simp_all add: take_field_def)

lemma fold_delete_filter: "foldl delete_prop c ks = filter (\<lambda>kv. fst kv \<notin> set ks) c"
proof (induction ks arbitrary: c)
  case Nil
  then show ?case by simp
next
  case (Cons k ks)
  have "foldl delete_prop c (k # ks) = filter (\<lambda>kv. fst kv \<notin> set ks) (delete_prop c k)"
    by (simp add: Cons.IH)
  also have "\<dots> = filter (\<lambda>kv. fst kv \<notin> set ks) (filter (\<lambda>kv. fst kv \<noteq> k) c)"
    by (simp only: delete_prop_filter)
  also have "\<dots> = filter (\<lambda>kv. fst kv \<notin> set (k # ks)) c"
    by (auto intro: filter_cong)
  finally show ?case .
qed

lemma take_field_copy:
  "snd (foldl take_field (r, c) viewFormKeyMap) = filter (\<lambda>kv. \<not> form_key kv) c"
  by (simp add: take_field_fold_snd fold_delete_filter form_key_def)

lemma take_field_fold_get:
  "distinct (map snd km) \<Longrightarrow> distinct (map fst km) \<Longrightarrow>
   get (fst (foldl take_field (r, c) km)) k =
     (case map_of km k of
        Some fk \<Rightarrow> if truthy (get c fk) then get c fk else get r k
      | None \<Rightarrow> get r k)"
proof (induction km arbitrary: r c)
  case Nil
  then show ?case by simp
next
  case (Cons p km)
  obtain a fa where p: "p = (a, fa)" by (cases p)
  let ?r = "if truthy (get c fa) then set_prop r a (get c fa) else r"
  let ?c = "delete_prop c fa"
  have step: "foldl take_field (r, c) (p # km) = foldl take_field (?r, ?c) km"
    by (simp add: p take_field_def)
  from Cons.prems have d: "distinct (map snd km)" "distinct (map fst km)" by simp_all
  from Cons.prems have fa: "fa \<notin> snd ` set km" and a: "a \<notin> fst ` set km" by (auto simp: p)
  have same: "get ?c fk = get c fk" if "map_of km k = Some fk" for fk
  proof -
    from that have "(k, fk) \<in> set km" by (rule map_of_SomeD)
    with fa have "fk \<noteq> fa" by force
    then show ?thesis by (simp add: get_delete_prop)
  qed
  show ?case
  proof (cases "k = a")
    case True
    with a have "map_of km k = None" by (simp add: map_of_eq_None_iff)
    then show ?thesis
      unfolding step Cons.IH [OF d] by (simp add: p True get_set_prop)
  next
    case False
    then show ?thesis
      unfolding step Cons.IH [OF d]
      by (auto simp: p get_set_prop same split: option.splits)
  qed
qed

lemma take_field_fold_keys:
  "distinct (map snd km) \<Longrightarrow>
   fst ` set (fst (foldl take_field (r, c) km)) =
     fst ` set r \<union> {k. \<exists>fk. (k, fk) \<in> set km \<and> truthy (get c fk)}"
proof (induction km arbitrary: r c)
  case Nil
  then show ?case by simp
next
  case (Cons p km)
  obtain a fa where p: "p = (a, fa)" by (cases p)
  let ?r = "if truthy (get c fa) then set_prop r a (get c fa) else r"
  let ?c = "delete_prop c fa"
  have step: "foldl take_field (r, c) (p # km) = foldl take_field (?r, ?c) km"
    by (simp add: p take_field_def)
  from Cons.prems have d: "distinct (map snd km)" by simp
  from Cons.prems have fa: "fa \<notin> snd ` set km" by (auto simp: p)
  have same: "get ?c fk = get c fk" if "(k, fk) \<in> set km" for k fk
  proof -
    from that fa have "fk \<noteq> fa" by force
    then show ?thesis by (simp add: get_delete_prop)
  qed
  have keys: "fst ` set ?r = fst ` set r \<union> (if truthy (get c fa) then {a} else {})"
    by (simp add: set_prop_def dom_update)
  have "{k. \<exists>fk. (k, fk) \<in> set km \<and> truthy (get ?c fk)} = {k. \<exists>fk. (k, fk) \<in> set km \<and> truthy (get c fk)}"
    using same by auto
  then show ?case
    unfolding step Cons.IH [OF d] keys by (auto simp: p)
qed

lemma spread2_fresh:
  "distinct (map fst (pre @ suf)) \<Longrightarrow> spread2 pre suf = pre @ suf"
proof (induction suf arbitrary: pre)
  case Nil
  then show ?case by (simp add: spread2_def)
next
  case (Cons kv suf)
  from Cons.prems have n: "fst kv \<notin> fst ` set pre" by auto
  then have s: "set_prop pre (fst kv) (snd kv) = pre @ [kv]"
    by (induction pre) (auto simp: set_prop_def)
  from Cons.prems have "distinct (map fst ((pre @ [kv]) @ suf))" by auto
  from Cons.IH [OF this] show ?case
    by (simp add: spread2_def s)
qed

lemma spread2_over_gen:
  "distinct (map fst (pre @ suf)) \<Longrightarrow>
   spread2 (pre @ suf) (map (\<lambda>kv. (fst kv, f (snd kv))) suf) = pre @ map (\<lambda>kv. (fst kv, f (snd kv))) suf"
proof (induction suf arbitrary: pre)
  case Nil
  then show ?case by (simp add: spread2_def)
next
  case (Cons kv suf)
  from Cons.prems have n: "fst kv \<notin> fst ` set pre" by auto
  have s: "set_prop (pre @ kv # suf) (fst kv) (f (snd kv)) = (pre @ [(fst kv, f (snd kv))]) @ suf"
    by (simp add: set_prop_append_notin [OF n]) (simp add: set_prop_def)
  from Cons.prems have "distinct (map fst ((pre @ [(fst kv, f (snd kv))]) @ suf))" by auto
  from Cons.IH [OF this] show ?case
    by (simp add: spread2_def s)
qed

lemma spread2_over:
  "distinct (map fst m) \<Longrightarrow>
   spread2 m (map (\<lambda>kv. (fst kv, f (snd kv))) m) = map (\<lambda>kv. (fst kv, f (snd kv))) m"
  using spread2_over_gen [of "[]" m f] by simp

lemma decode_from_encoded:
  assumes copy: "filter (\<lambda>kv. \<not> form_key kv) fv = map (\<lambda>kv. (fst kv, encode_value (snd kv))) ps"
    and d: "distinct (map fst ps)"
    and wf: "\<forall>kv \<in> set ps. wf_filter (snd kv)"
    and seed: "get seed ''properties'' = JUndefined \<or> get seed ''properties'' = JObj ps"
  shows "decode_from seed fv =
           Inr (set_prop (fst (foldl take_field (seed, fv) viewFormKeyMap)) ''properties''
                  (JObj (map (\<lambda>kv. (fst kv, decode_value (encode_value (snd kv)))) ps)))"
proof -
  let ?enc = "map (\<lambda>kv. (fst kv, encode_value (snd kv))) ps"
  let ?T = "fst (foldl take_field (seed, fv) viewFormKeyMap)"
  have p: "get ?T ''properties'' = get seed ''properties''"
    by (subst take_field_fold_get) (simp_all add: viewFormKeyMap_def)
  have de: "distinct (map fst ?enc)" using d by (simp add: comp_def)
  have props: "spread2 (own_props (if truthy (get ?T ''properties'') then get ?T ''properties'' else JObj []))
           (snd (foldl take_field (seed, fv) viewFormKeyMap)) = ?enc"
    unfolding p take_field_copy copy
    using seed spread2_fresh [of "[]" ?enc] spread2_over [OF d, of encode_value] de
    by auto
  have "\<forall>kv \<in> set ?enc. snd kv \<noteq> JUndefined \<and> snd kv \<noteq> JNull"
    using wf wf_filter_defined by auto
  from fold_from_range [OF de this]
  have fr: "foldl from_range (Inr ?enc) (map fst ?enc) =
      Inr (map (\<lambda>kv. (fst kv, decode_value (encode_value (snd kv)))) ps)"
    by (simp add: comp_def)
  show ?thesis
    unfolding decode_from_def Let_def props fr by simp
qed


lemma wf_properties_obtain:
  assumes "wf_properties p"
  obtains ps where "p = JObj ps" and "distinct (map fst ps)"
    and "\<forall>kv \<in> set ps. \<not> form_key kv" and "\<forall>kv \<in> set ps. wf_filter (snd kv)"
  using assms by (cases p) (auto simp: wf_properties_def form_key_def list_all_iff)

lemma get_distinct: "distinct (map fst m) \<Longrightarrow> (k, x) \<in> set m \<Longrightarrow> get m k = x"
  by (simp add: get_def)

lemma form_keys_taken:
  "(\<exists>fk. (k, fk) \<in> set viewFormKeyMap \<and> truthy (get fv fk)) \<longleftrightarrow>
     (k = ''search'' \<and> truthy (get fv formSearchKey) \<or>
      k = ''sort'' \<and> truthy (get fv formSortKey) \<or>
      k = ''step'' \<and> truthy (get fv formStepKey) \<or>
      k = ''page'' \<and> truthy (get fv formPageKey) \<or>
      k = ''columns'' \<and> truthy (get fv formColumnsKey) \<or>
      k = ''view'' \<and> truthy (get fv formViewNameKey))"
  unfolding viewFormKeyMap_def by (simp add: conj_disj_distribR ex_disj_distrib)

lemma struct_eq_props:
  assumes "\<forall>kv \<in> set ps. wf_filter (snd kv)" and "distinct (map fst ps)"
  shows "struct_eq (JObj (map (\<lambda>kv. (fst kv, decode_value (encode_value (snd kv)))) ps)) (JObj ps)"
proof -
  have h: "struct_eq (decode_value (encode_value (get ps k))) (get ps k)" if "k \<in> fst ` set ps" for k
  proof -
    from that obtain x where x: "(k, x) \<in> set ps" by auto
    with assms(2) have "get ps k = x" by (simp add: get_distinct)
    from x assms(1) have "wf_filter x" by auto
    then show ?thesis
      unfolding \<open>get ps k = x\<close> by (rule wf_filter_round_trip)
  qed
  have keys: "fst ` set (map (\<lambda>kv. (fst kv, decode_value (encode_value (snd kv)))) ps) = fst ` set ps"
    by (simp add: image_image)
  show ?thesis
    unfolding struct_eq.simps keys
  proof (intro conjI ballI)
    show "fst ` set ps = fst ` set ps" ..
  next
    fix k
    assume k: "k \<in> fst ` set ps"
    with h [OF k] show "struct_eq (get (map (\<lambda>kv. (fst kv, decode_value (encode_value (snd kv)))) ps) k) (get ps k)"
      using get_map_values [of "\<lambda>x. decode_value (encode_value x)" ps k] by simp
  qed
qed

lemma round_trip_unnamed:
  assumes wf: "wf_unnamed_view v"
  shows "\<exists>r. formValueToView (viewToFormValue (JObj v)) views = Inr r \<and> struct_eq (JObj r) (JObj v)"
proof -
  let ?fv = "viewToFormValue (JObj v)"
  let ?T = "fst (foldl take_field ([], ?fv) viewFormKeyMap)"
  from wf have dv: "distinct (map fst v)" and pk: "''properties'' \<in> fst ` set v"
    and wp: "wf_properties (get v ''properties'')"
    by (simp_all add: wf_unnamed_view_def)
  from wp obtain ps where ps: "get v ''properties'' = JObj ps" and dps: "distinct (map fst ps)"
    and nf: "\<forall>kv \<in> set ps. \<not> form_key kv" and wfs: "\<forall>kv \<in> set ps. wf_filter (snd kv)"
    by (rule wf_properties_obtain)
  have keys: "k = ''properties'' \<or>
      (k \<in> {''search'', ''sort'', ''step'', ''page'', ''columns''} \<and> truthy (get v k))"
    if "k \<in> fst ` set v" for k
  proof -
    from that obtain x where x: "(k, x) \<in> set v" by auto
    with dv have "get v k = x" by (simp add: get_distinct)
    with x wf show ?thesis
      by (auto simp: wf_unnamed_view_def list_all_iff)
  qed
  have present: "k \<in> fst ` set v" if "truthy (get v k)" for k
    using that get_in_keys [of v k] by (cases "get v k") auto
  have no_name: "get v ''name'' = JUndefined" "get v ''view'' = JUndefined"
    using keys [of "''name''"] keys [of "''view''"] get_in_keys [of v] by auto
  note f = encode_fields [OF ps dps nf]
  have nv: "get ?fv formViewNameKey = JUndefined"
    by (simp add: f no_name)
  let ?props = "map (\<lambda>kv. (fst kv, decode_value (encode_value (snd kv)))) ps"
  let ?r = "set_prop ?T ''properties'' (JObj ?props)"
  have dec: "decode_from [] ?fv = Inr ?r"
    by (rule decode_from_encoded [OF encode_props [OF ps dps nf] dps wfs]) (simp add: obj_eval)
  have res: "formValueToView ?fv views = Inr ?r"
    by (simp add: formValueToView_def nv dec)
  have ft: "truthy (get ?fv formSearchKey) = truthy (get v ''search'')"
    "truthy (get ?fv formSortKey) = truthy (get v ''sort'')"
    "truthy (get ?fv formStepKey) = truthy (get v ''step'')"
    "truthy (get ?fv formPageKey) = truthy (get v ''page'')"
    "truthy (get ?fv formColumnsKey) = truthy (get v ''columns'')"
    "truthy (get ?fv formViewNameKey) = False"
    by (simp_all add: f no_name)
  have dk: "distinct (map snd viewFormKeyMap)" "distinct (map fst viewFormKeyMap)"
    by (simp_all add: viewFormKeyMap_def)
  have Tkeys: "fst ` set ?T =
      {k. k \<in> {''search'', ''sort'', ''step'', ''page'', ''columns''} \<and> truthy (get v k)}"
    unfolding take_field_fold_keys [OF dk(1)] form_keys_taken ft by auto
  have Tget: "get ?T k = get v k"
    if "k \<in> {''search'', ''sort'', ''step'', ''page'', ''columns''}" "truthy (get v k)" for k
  proof -
    from that(1) consider "k = ''search''" | "k = ''sort''" | "k = ''step''" | "k = ''page''"
      | "k = ''columns''" by auto
    then show ?thesis
    proof cases
      case 1
      with that(2) show ?thesis
        unfolding take_field_fold_get [OF dk] by (simp add: viewFormKeyMap_def f)
    next
      case 2
      with that(2) show ?thesis
        unfolding take_field_fold_get [OF dk] by (simp add: viewFormKeyMap_def f)
    next
      case 3
      with that(2) show ?thesis
        unfolding take_field_fold_get [OF dk] by (simp add: viewFormKeyMap_def f)
    next
      case 4
      with that(2) show ?thesis
        unfolding take_field_fold_get [OF dk] by (simp add: viewFormKeyMap_def f)
    next
      case 5
      with that(2) show ?thesis
        unfolding take_field_fold_get [OF dk] by (simp add: viewFormKeyMap_def f)
    qed
  qed
  have rkeys: "fst ` set ?r = fst ` set v"
    using keys present pk by (auto simp: set_prop_def dom_update Tkeys)
  have rvals: "struct_eq (get ?r k) (get v k)" if "k \<in> fst ` set v" for k
  proof (cases "k = ''properties''")
    case True
    then show ?thesis
      by (simp add: get_set_prop ps struct_eq_props [OF wfs dps])
  next
    case False
    with keys [OF that] have k: "k \<in> {''search'', ''sort'', ''step'', ''page'', ''columns''}"
      and t: "truthy (get v k)" by auto
    from False show ?thesis
      by (simp add: get_set_prop Tget [OF k t] struct_eq_refl)
  qed
  have "struct_eq (JObj ?r) (JObj v)"
    unfolding struct_eq.simps rkeys using rvals by blast
  with res show ?thesis by blast
qed


lemma round_trip_named:
  assumes wf: "wf_named_view v"
    and found: "find_view views (get v ''name'') = Inr (JObj v)"
  shows "\<exists>r. formValueToView (viewToFormValue (JObj v)) views = Inr r \<and>
             struct_eq (JObj r) (JObj (set_prop v ''view'' (get v ''name'')))"
proof -
  let ?fv = "viewToFormValue (JObj v)"
  let ?T = "fst (foldl take_field (v, ?fv) viewFormKeyMap)"
  from wf have dv: "distinct (map fst v)" and pk: "''properties'' \<in> fst ` set v"
    and wp: "wf_properties (get v ''properties'')" and js: "json_props v"
    by (simp_all add: wf_named_view_def)
  from wf obtain n where n: "get v ''name'' = JStr n" "n \<noteq> []"
    by (cases "get v ''name''") (auto simp: wf_named_view_def)
  from wp obtain ps where ps: "get v ''properties'' = JObj ps" and dps: "distinct (map fst ps)"
    and nf: "\<forall>kv \<in> set ps. \<not> form_key kv" and wfs: "\<forall>kv \<in> set ps. wf_filter (snd kv)"
    by (rule wf_properties_obtain)
  have present: "k \<in> fst ` set v" if "truthy (get v k)" for k
    using that get_in_keys [of v k] by (cases "get v k") auto
  note f = encode_fields [OF ps dps nf]
  have nv: "get ?fv formViewNameKey = JStr n"
    by (simp add: f n)
  let ?props = "map (\<lambda>kv. (fst kv, decode_value (encode_value (snd kv)))) ps"
  let ?r = "set_prop ?T ''properties'' (JObj ?props)"
  have dec: "decode_from v ?fv = Inr ?r"
    by (rule decode_from_encoded [OF encode_props [OF ps dps nf] dps wfs]) (simp add: ps)
  have copy: "json_copy (JObj v) = Inr (JObj v)"
    using js by (simp add: json_copy_def stringify_json_props)
  have res: "formValueToView ?fv views = Inr ?r"
    using found by (simp add: formValueToView_def nv n copy dec)
  have ft: "truthy (get ?fv formSearchKey) = truthy (get v ''search'')"
    "truthy (get ?fv formSortKey) = truthy (get v ''sort'')"
    "truthy (get ?fv formStepKey) = truthy (get v ''step'')"
    "truthy (get ?fv formPageKey) = truthy (get v ''page'')"
    "truthy (get ?fv formColumnsKey) = truthy (get v ''columns'')"
    "truthy (get ?fv formViewNameKey) = True"
    by (simp_all add: f n)
  have dk: "distinct (map snd viewFormKeyMap)" "distinct (map fst viewFormKeyMap)"
    by (simp_all add: viewFormKeyMap_def)
  have Tkeys: "fst ` set ?T = insert ''view'' (fst ` set v)"
    unfolding take_field_fold_keys [OF dk(1)] form_keys_taken ft using present by auto
  have Tview: "get ?T ''view'' = JStr n"
    unfolding take_field_fold_get [OF dk] by (simp add: viewFormKeyMap_def nv n)
  have Tget: "get ?T k = get v k" if nview: "k \<noteq> ''view''" for k
  proof -
    consider "k = ''search''" | "k = ''sort''" | "k = ''step''" | "k = ''page''" | "k = ''columns''"
      | "k \<noteq> ''search''" "k \<noteq> ''sort''" "k \<noteq> ''step''" "k \<noteq> ''page''" "k \<noteq> ''columns''"
      by blast
    then show ?thesis
    proof cases
      case 1
      then show ?thesis
        unfolding take_field_fold_get [OF dk] by (simp add: viewFormKeyMap_def f)
    next
      case 2
      then show ?thesis
        unfolding take_field_fold_get [OF dk] by (simp add: viewFormKeyMap_def f)
    next
      case 3
      then show ?thesis
        unfolding take_field_fold_get [OF dk] by (simp add: viewFormKeyMap_def f)
    next
      case 4
      then show ?thesis
        unfolding take_field_fold_get [OF dk] by (simp add: viewFormKeyMap_def f)
    next
      case 5
      then show ?thesis
        unfolding take_field_fold_get [OF dk] by (simp add: viewFormKeyMap_def f)
    next
      case 6
      with nview have "map_of viewFormKeyMap k = None"
        by (simp add: viewFormKeyMap_def)
      then show ?thesis
        unfolding take_field_fold_get [OF dk] by simp
    qed
  qed
  let ?w = "set_prop v ''view'' (get v ''name'')"
  have wkeys: "fst ` set ?w = insert ''view'' (fst ` set v)"
    by (simp add: set_prop_def dom_update)
  have rkeys: "fst ` set ?r = fst ` set ?w"
    unfolding wkeys using pk by (auto simp: set_prop_def dom_update Tkeys)
  have rvals: "struct_eq (get ?r k) (get ?w k)" for k
  proof -
    consider "k = ''properties''" | "k = ''view''" | "k \<noteq> ''properties''" "k \<noteq> ''view''"
      by blast
    then show ?thesis
    proof cases
      case 1
      then show ?thesis
        by (simp add: get_set_prop ps struct_eq_props [OF wfs dps])
    next
      case 2
      then show ?thesis
        by (simp add: get_set_prop Tview n struct_eq_refl)
    next
      case 3
      then show ?thesis
        by (simp add: get_set_prop Tget struct_eq_refl)
    qed
  qed
  have "struct_eq (JObj ?r) (JObj ?w)"
    unfolding struct_eq.simps rkeys using rvals by blast
  with res show ?thesis by blast
qed

text \<open>
  Claim C1, as the code has it. A view without a name comes back from
  \<open>formValueToView (viewToFormValue v)\<close> structurally equal to itself, whatever the views
  are. A view with a name that the views hold under that name comes back with the
  additional field \<open>view\<close>, which carries the name, and is otherwise structurally equal to
  itself. Neither direction removes a property whose value is the empty sequence.
\<close>

theorem codec_round_trip:
  "(wf_unnamed_view v \<longrightarrow>
      (\<exists>r. formValueToView (viewToFormValue (JObj v)) views = Inr r \<and> struct_eq (JObj r) (JObj v))) \<and>
   (wf_named_view w \<and> find_view views (get w ''name'') = Inr (JObj w) \<longrightarrow>
      (\<exists>r. formValueToView (viewToFormValue (JObj w)) views = Inr r \<and>
           struct_eq (JObj r) (JObj (set_prop w ''view'' (get w ''name'')))))"
  using round_trip_unnamed [of v views] round_trip_named [of w views] by blast

theorem codec_round_trip_witness:
  "wf_unnamed_view
     [(''properties'', JObj [(''age'', JObj [(''max'', JNum 5), (''min'', JNum 1)]),
                             (''status'', JStr ''open''), (''tags'', JArr [])]),
      (''search'', JStr ''x''), (''page'', JNum 2)] \<and>
   (\<exists>r. formValueToView (viewToFormValue (JObj
     [(''properties'', JObj [(''age'', JObj [(''max'', JNum 5), (''min'', JNum 1)]),
                             (''status'', JStr ''open''), (''tags'', JArr [])]),
      (''search'', JStr ''x''), (''page'', JNum 2)]))
     (JArr [JObj [(''name'', JStr ''A''), (''search'', JStr []),
                  (''properties'', JObj [(''status'', JStr ''open'')])]]) = Inr r \<and>
     struct_eq (JObj r) (JObj
     [(''properties'', JObj [(''age'', JObj [(''max'', JNum 5), (''min'', JNum 1)]),
                             (''status'', JStr ''open''), (''tags'', JArr [])]),
      (''search'', JStr ''x''), (''page'', JNum 2)])) \<and>
   wf_named_view [(''name'', JStr ''A''), (''search'', JStr []),
                  (''properties'', JObj [(''status'', JStr ''open'')])] \<and>
   (\<exists>r. formValueToView (viewToFormValue (JObj
     [(''name'', JStr ''A''), (''search'', JStr []), (''properties'', JObj [(''status'', JStr ''open'')])]))
     (JArr [JObj [(''name'', JStr ''A''), (''search'', JStr []),
                  (''properties'', JObj [(''status'', JStr ''open'')])]]) = Inr r \<and>
     struct_eq (JObj r) (JObj
     [(''name'', JStr ''A''), (''search'', JStr []), (''properties'', JObj [(''status'', JStr ''open'')]),
      (''view'', JStr ''A'')]))"
proof -
  let ?v = "[(''properties'', JObj [(''age'', JObj [(''max'', JNum 5), (''min'', JNum 1)]),
                             (''status'', JStr ''open''), (''tags'', JArr [])]),
      (''search'', JStr ''x''), (''page'', JNum 2)]"
  let ?w = "[(''name'', JStr ''A''), (''search'', JStr []),
             (''properties'', JObj [(''status'', JStr ''open'')])]"
  have u: "wf_unnamed_view ?v"
    by (simp add: wf_unnamed_view_def wf_properties_def viewFormKeyMap_def obj_eval)
  have n: "wf_named_view ?w"
    by (simp add: wf_named_view_def wf_properties_def viewFormKeyMap_def obj_eval)
  have f: "find_view (JArr [JObj ?w]) (get ?w ''name'') = Inr (JObj ?w)"
    by (simp add: obj_eval strict_eq_def)
  have s: "set_prop ?w ''view'' (get ?w ''name'') = ?w @ [(''view'', JStr ''A'')]"
    by (simp add: obj_eval)
  from codec_round_trip [of ?v "JArr [JObj ?w]" ?w] u n f show ?thesis
    unfolding s by simp
qed

text \<open>
  Claim C1 as stated fails. The view \<^verbatim>\<open>{name: "A", properties: {status: "open"}}\<close>, which
  has no empty sequence and whose name is in the views, comes back with a field \<open>view\<close>
  that it did not have. And a field with a falsy value is lost when the view has no name:
  \<^verbatim>\<open>{properties: {}, search: ""}\<close> comes back without \<open>search\<close>.
\<close>

theorem codec_round_trip_counterexample:
  "formValueToView
     (viewToFormValue (JObj [(''name'', JStr ''A''), (''properties'', JObj [(''status'', JStr ''open'')])]))
     (JArr [JObj [(''name'', JStr ''A''), (''properties'', JObj [(''status'', JStr ''open'')])]])
     = Inr [(''name'', JStr ''A''), (''properties'', JObj [(''status'', JStr ''open'')]),
            (''view'', JStr ''A'')] \<and>
   \<not> struct_eq
     (JObj [(''name'', JStr ''A''), (''properties'', JObj [(''status'', JStr ''open'')]),
            (''view'', JStr ''A'')])
     (JObj [(''name'', JStr ''A''), (''properties'', JObj [(''status'', JStr ''open'')])]) \<and>
   formValueToView (viewToFormValue (JObj [(''properties'', JObj []), (''search'', JStr [])])) (JArr [])
     = Inr [(''properties'', JObj [])] \<and>
   \<not> struct_eq (JObj [(''properties'', JObj [])]) (JObj [(''properties'', JObj []), (''search'', JStr [])])"
  by (simp add: codec_defs obj_eval strict_eq_def struct_eq.simps)

end
